theory Spec2Isabelle
  imports Main "HOL-Library.Word"
begin

section \<open>Protocol registry (bufferev.c, lines 55-84)\<close>

text \<open>
  \<^verbatim>\<open>enum network_proto\<close> is declared in bufferev.h; its three enumerators are the ones
  bufferev.c names (in \<^verbatim>\<open>proto_list\<close> and in the switch of \<^verbatim>\<open>bufferev_write\<close>).
\<close>

datatype network_proto = network_proto_udp | network_proto_tcp | network_proto_tls

text \<open>
  The static table, row by row as the source has it. The third row pairs the name
  \<^verbatim>\<open>"tls"\<close> with \<^verbatim>\<open>network_proto_tcp\<close>.
\<close>

definition proto_list :: "(network_proto \<times> string) list" where
  "proto_list =
     [(network_proto_udp, ''udp''),
      (network_proto_tcp, ''tcp''),
      (network_proto_tcp, ''tls'')]"

text \<open>
  \<^verbatim>\<open>for (i = 0; i < COUNT_OF(proto_list); i++) if (proto_list[i].proto == proto) return
  proto_list[i].str; return "unknown";\<close> The loop is a walk over the rows, first match wins.
\<close>

fun to_str_loop :: "(network_proto \<times> string) list \<Rightarrow> network_proto \<Rightarrow> string" where
  "to_str_loop [] proto = ''unknown''"
| "to_str_loop (row # rows) proto =
     (if fst row = proto then snd row else to_str_loop rows proto)"

definition network_proto_to_str :: "network_proto \<Rightarrow> string" where
  "network_proto_to_str proto = to_str_loop proto_list proto"

text \<open>
  \<^verbatim>\<open>strcasecmp\<close> of the C library in the C locale: the strings are compared byte by
  byte after folding \<^verbatim>\<open>A..Z\<close> to lower case; the result is the difference of the
  first pair of bytes that differ, the end of a string counting as byte 0.
\<close>

definition tolower :: "char \<Rightarrow> char" where
  "tolower c =
     (let n = (of_char c :: nat)
      in if 65 \<le> n \<and> n \<le> 90 then char_of (n + 32) else c)"

fun strcasecmp :: "string \<Rightarrow> string \<Rightarrow> int" where
  "strcasecmp [] [] = 0"
| "strcasecmp [] (y # ys) = 0 - of_char (tolower y)"
| "strcasecmp (x # xs) [] = of_char (tolower x)"
| "strcasecmp (x # xs) (y # ys) =
     (if tolower x = tolower y then strcasecmp xs ys
      else of_char (tolower x) - of_char (tolower y))"

text \<open>
  \<^verbatim>\<open>for (...) if (!strcasecmp(proto_list[i].str, proto)) return proto_list[i].proto;
  return network_proto_tcp;\<close>
\<close>

fun str_to_proto_loop :: "(network_proto \<times> string) list \<Rightarrow> string \<Rightarrow> network_proto" where
  "str_to_proto_loop [] proto = network_proto_tcp"
| "str_to_proto_loop (row # rows) proto =
     (if strcasecmp (snd row) proto = 0 then fst row else str_to_proto_loop rows proto)"

definition network_str_to_proto :: "string \<Rightarrow> network_proto" where
  "network_str_to_proto proto = str_to_proto_loop proto_list proto"

section \<open>The connection object and its environment\<close>

type_synonym byte = "8 word"

text \<open>The error numbers the source tests for, and any other one.\<close>

datatype errno = EAGAIN | EINTR | EINPROGRESS | EOTHER nat

text \<open>
  Modelled from the spec: the \<^verbatim>\<open>BEV_*\<close> macros of bufferev.h, which is not among the
  sources. The spec calls the argument of \<^verbatim>\<open>event_cb\<close> a bitmask over Connected,
  Error, Eof and Timeout, combinable with \<^verbatim>\<open>|\<close>; a mask is the set of its flags.
\<close>

datatype bev_flag = BEV_CONNECTED | BEV_ERROR | BEV_EOF | BEV_TIMEOUT

text \<open>The two handlers the source installs in \<^verbatim>\<open>data_ev\<close>, and the libev event masks.\<close>

datatype io_handler = H_on_connect | H_on_read

datatype io_events = EV_NONE | EV_READ | EV_WRITE

text \<open>
  What a queue pointer of the struct points to: nothing (the zeroed struct), a queue made
  by \<^verbatim>\<open>buffer_queue_new\<close>, or a queue already passed to \<^verbatim>\<open>buffer_queue_free\<close>.
\<close>

datatype ptr_state = Null | Live | Freed

datatype queue_id = RX | TX

text \<open>
  Every call that leaves bufferev.c (system calls, libev, the queue's destructor, the
  owner's callbacks) is recorded, in order, with the arguments and results that matter.
  \<^verbatim>\<open>Call_send fd bytes rc\<close> offers \<open>bytes\<close> and is answered \<open>rc\<close>;
  \<^verbatim>\<open>Call_read_cb q\<close> is a call of the owner's \<^verbatim>\<open>read_cb\<close> at a moment when
  \<^verbatim>\<open>rx_queue\<close> holds \<open>q\<close>.
\<close>

datatype call =
    Call_socket int
  | Call_make_socket_nonblocking int
  | Call_bind int
  | Call_connect int
  | Call_getsockopt int
  | Call_send int "byte list" int
  | Call_recv int int
  | Call_close int
  | Call_ev_io_start "io_handler option" int io_events
  | Call_ev_io_stop
  | Call_ev_timer_start nat
  | Call_ev_timer_stop
  | Call_buffer_queue_free queue_id ptr_state
  | Call_free
  | Call_read_cb "byte list"
  | Call_event_cb "bev_flag set"

text \<open>
  The owner's data handler, as far as the connection can tell: called when
  \<^verbatim>\<open>rx_queue\<close> holds \<open>q\<close>, it takes \<open>h q\<close> bytes off the queue with
  \<^verbatim>\<open>bufferev_read\<close> (peeking and asking for the length change nothing). The event
  handler is known by its address only.
\<close>

type_synonym data_cb = "byte list \<Rightarrow> nat"

text \<open>
  \<^verbatim>\<open>struct bufferev\<close>. The two libev watchers are flattened into the fields
  \<open>connect_timer_*\<close> and \<open>data_ev_*\<close> (whether the watcher is active, and what
  \<^verbatim>\<open>ev_io_init\<close> or \<^verbatim>\<open>ev_timer_init\<close> stored in it; the timeout is a number of
  time units); \<^verbatim>\<open>uri\<close>, \<^verbatim>\<open>host\<close>, \<^verbatim>\<open>services\<close>
  and \<^verbatim>\<open>num_services\<close> are never read or written by bufferev.c and are left out.
  \<open>rx_queue\<close> and \<open>tx_queue\<close> hold the bytes of the queues pointed to, \<open>rx_queue_st\<close>
  and \<open>tx_queue_st\<close> say what the pointers point to. \<open>calls\<close> is not a field of the
  struct: it is the record of the calls made so far.
\<close>

record bufferev =
  connect_timer_active :: bool
  connect_timer_after :: nat
  loop :: nat
  proto :: network_proto
  sock :: int
  connected :: int
  data_ev_active :: bool
  data_ev_cb :: "io_handler option"
  data_ev_fd :: int
  data_ev_events :: io_events
  tx_queue :: "byte list"
  tx_queue_st :: ptr_state
  rx_queue :: "byte list"
  rx_queue_st :: ptr_state
  read_cb :: "data_cb option"
  write_cb :: "data_cb option"
  event_cb :: "nat option"
  cb_arg :: nat
  calls :: "call list"

definition emit :: "call \<Rightarrow> bufferev \<Rightarrow> bufferev" where
  "emit c be = be\<lparr>calls := calls be @ [c]\<rparr>"

subsection \<open>libev, as bufferev.c uses it\<close>

text \<open>
  Stopping a watcher makes it inactive (and drops an event of it that is pending), whether
  or not it was active; starting makes it active. An inactive watcher's handler is not
  called.
\<close>

definition ev_io_stop :: "bufferev \<Rightarrow> bufferev" where
  "ev_io_stop be = emit Call_ev_io_stop (be\<lparr>data_ev_active := False\<rparr>)"

definition ev_io_init :: "io_handler \<Rightarrow> int \<Rightarrow> io_events \<Rightarrow> bufferev \<Rightarrow> bufferev" where
  "ev_io_init h fd evs be = be\<lparr>data_ev_cb := Some h, data_ev_fd := fd, data_ev_events := evs\<rparr>"

definition ev_io_start :: "bufferev \<Rightarrow> bufferev" where
  "ev_io_start be =
     emit (Call_ev_io_start (data_ev_cb be) (data_ev_fd be) (data_ev_events be))
       (be\<lparr>data_ev_active := True\<rparr>)"

definition ev_timer_stop :: "bufferev \<Rightarrow> bufferev" where
  "ev_timer_stop be = emit Call_ev_timer_stop (be\<lparr>connect_timer_active := False\<rparr>)"

definition ev_timer_init :: "nat \<Rightarrow> bufferev \<Rightarrow> bufferev" where
  "ev_timer_init after be = be\<lparr>connect_timer_after := after\<rparr>"

definition ev_timer_start :: "bufferev \<Rightarrow> bufferev" where
  "ev_timer_start be =
     emit (Call_ev_timer_start (connect_timer_after be)) (be\<lparr>connect_timer_active := True\<rparr>)"

subsection \<open>Callbacks\<close>

text \<open>\<^verbatim>\<open>if (be->event_cb) be->event_cb(be, flags, be->cb_arg);\<close>\<close>

definition call_event_cb :: "bev_flag set \<Rightarrow> bufferev \<Rightarrow> bufferev" where
  "call_event_cb flags be =
     (case event_cb be of None \<Rightarrow> be | Some f \<Rightarrow> emit (Call_event_cb flags) be)"

text \<open>\<^verbatim>\<open>bufferev_setcbs\<close>: the four fields are replaced together.\<close>

definition bufferev_setcbs ::
  "bufferev \<Rightarrow> data_cb option \<Rightarrow> data_cb option \<Rightarrow> nat option \<Rightarrow> nat \<Rightarrow> bufferev" where
  "bufferev_setcbs be rcb wcb ecb arg =
     be\<lparr>read_cb := rcb, write_cb := wcb, event_cb := ecb, cb_arg := arg\<rparr>"

subsection \<open>Closing, the connect timer, the connect handler\<close>

text \<open>\<^verbatim>\<open>if (be->sock >= 0) { close(be->sock); be->sock = -1; }\<close>\<close>

definition close_sock :: "bufferev \<Rightarrow> bufferev" where
  "close_sock be =
     (if sock be \<ge> 0 then (emit (Call_close (sock be)) be)\<lparr>sock := -1\<rparr> else be)"

definition on_connect_timeout :: "bufferev \<Rightarrow> bufferev" where
  "on_connect_timeout be =
     (let be1 = ev_timer_stop be
      in if connected be1 = 0
         then call_event_cb {BEV_ERROR, BEV_TIMEOUT} (ev_io_stop (close_sock be1))
         else be1)"

text \<open>
  \<^verbatim>\<open>on_connect\<close>; \<open>status\<close> is the value found in the local \<^verbatim>\<open>status\<close> after
  \<^verbatim>\<open>getsockopt(be->sock, SOL_SOCKET, SO_ERROR, &status, &len)\<close>.
\<close>

definition on_connect :: "int \<Rightarrow> bufferev \<Rightarrow> bufferev" where
  "on_connect status be =
     (let be1 = ev_timer_stop (ev_io_stop be);
          be2 = emit (Call_getsockopt (sock be1)) be1
      in if status \<noteq> 0 then call_event_cb {BEV_ERROR} be2
         else
           (let be3 = call_event_cb {BEV_CONNECTED} be2;
                be4 = ev_io_start (ev_io_init H_on_read (sock be3) EV_READ be3)
            in be4\<lparr>connected := 1\<rparr>))"

subsection \<open>Connecting\<close>

record addrinfo =
  ai_family :: int
  ai_socktype :: int
  ai_protocol :: int

definition IPPROTO_UDP :: int where
  "IPPROTO_UDP = 17"

text \<open>What \<^verbatim>\<open>connect\<close> answers: 0, or -1 with an error number.\<close>

datatype connect_res = ConnOk | ConnErr errno

text \<open>
  \<^verbatim>\<open>bufferev_connect_addrinfo\<close>. \<open>sock_res\<close> is what \<^verbatim>\<open>socket\<close> returns and
  \<open>conn_res\<close> what \<^verbatim>\<open>connect\<close> answers; the result of \<^verbatim>\<open>bind\<close> is not looked at
  by the source. The pair returned is the function's return value and the connection.
\<close>

definition bufferev_connect_addrinfo ::
  "int \<Rightarrow> connect_res \<Rightarrow> addrinfo option \<Rightarrow> addrinfo \<Rightarrow> nat \<Rightarrow> bufferev \<Rightarrow> int \<times> bufferev" where
  "bufferev_connect_addrinfo sock_res conn_res src dst timeout_s be =
     (let be1 = emit (Call_socket sock_res) (be\<lparr>sock := sock_res\<rparr>)
      in if sock be1 < 0 then (-1, call_event_cb {BEV_ERROR} be1)
         else
           (let be2 = emit (Call_make_socket_nonblocking (sock be1)) be1;
                be3 = be2\<lparr>proto := (if ai_protocol dst = IPPROTO_UDP
                                      then network_proto_udp else network_proto_tcp)\<rparr>;
                be4 = (case src of None \<Rightarrow> be3 | Some s \<Rightarrow> emit (Call_bind (sock be3)) be3);
                be5 = emit (Call_connect (sock be4)) be4
            in if conn_res = ConnOk \<or> conn_res = ConnErr EINPROGRESS
               then
                 (0, ev_timer_start (ev_timer_init timeout_s
                       (ev_io_start (ev_io_init H_on_connect (sock be5) EV_WRITE be5))))
               else (-1, call_event_cb {BEV_ERROR} (close_sock be5))))"

text \<open>\<^verbatim>\<open>bufferev_connect_tcp_sock\<close>: the owner hands over a connected descriptor.\<close>

definition bufferev_connect_tcp_sock :: "bufferev \<Rightarrow> int \<Rightarrow> int \<times> bufferev" where
  "bufferev_connect_tcp_sock be fd =
     (let be1 = emit (Call_make_socket_nonblocking fd) (be\<lparr>sock := fd\<rparr>);
          be2 = be1\<lparr>proto := network_proto_tcp\<rparr>;
          be3 = ev_io_start (ev_io_init H_on_read (sock be2) EV_READ be2)
      in (0, call_event_cb {BEV_CONNECTED} be3))"

subsection \<open>Construction and teardown\<close>

text \<open>
  \<^verbatim>\<open>buffer_queue_free(q)\<close>: the call is recorded with what the pointer pointed to, and
  a live queue becomes a freed one. The pointer in the struct is not changed by the source.
\<close>

definition buffer_queue_free_rx :: "bufferev \<Rightarrow> bufferev" where
  "buffer_queue_free_rx be =
     (emit (Call_buffer_queue_free RX (rx_queue_st be)) be)
       \<lparr>rx_queue_st := (if rx_queue_st be = Null then Null else Freed)\<rparr>"

definition buffer_queue_free_tx :: "bufferev \<Rightarrow> bufferev" where
  "buffer_queue_free_tx be =
     (emit (Call_buffer_queue_free TX (tx_queue_st be)) be)
       \<lparr>tx_queue_st := (if tx_queue_st be = Null then Null else Freed)\<rparr>"

text \<open>
  The body of \<^verbatim>\<open>bufferev_free\<close> for a pointer that is not \<^verbatim>\<open>NULL\<close>, up to and
  including \<^verbatim>\<open>free(be)\<close>. With that call the object is gone; of the result only the
  record of calls means anything.
\<close>

definition bufferev_free_obj :: "bufferev \<Rightarrow> bufferev" where
  "bufferev_free_obj be =
     emit Call_free (close_sock (buffer_queue_free_tx (buffer_queue_free_rx (ev_io_stop be))))"

text \<open>
  What a connection pointer held by the owner points to: nothing (\<^verbatim>\<open>NULL\<close>), a
  connection, or memory that \<^verbatim>\<open>free\<close> has released; of a released connection only the
  record of the calls made on it is kept. \<^verbatim>\<open>bufferev_free\<close> takes the pointer by value
  and cannot change it: after the call the owner's pointer points to released memory.
  \<^verbatim>\<open>if (be)\<close> lets such a pointer through, and the first thing done with it,
  \<^verbatim>\<open>ev_io_stop(be->loop, &be->data_ev)\<close>, reads the released object: the call has no
  defined result, which is the value \<open>Inl Use_after_free\<close>.
\<close>

datatype be_ptr = Be_null | Be_live bufferev | Be_released "call list"

datatype fault = Use_after_free

definition bufferev_free :: "be_ptr \<Rightarrow> fault + be_ptr" where
  "bufferev_free p =
     (case p of
        Be_null \<Rightarrow> Inr Be_null
      | Be_live be \<Rightarrow> Inr (Be_released (calls (bufferev_free_obj be)))
      | Be_released cs \<Rightarrow> Inl Use_after_free)"

text \<open>
  \<^verbatim>\<open>calloc(1, sizeof(*be))\<close>: every field is zero. The zero value of
  \<^verbatim>\<open>enum network_proto\<close> is taken to be the first protocol of \<^verbatim>\<open>proto_list\<close>.
\<close>

definition zeroed :: bufferev where
  "zeroed =
     \<lparr>connect_timer_active = False, connect_timer_after = 0, loop = 0,
      proto = network_proto_udp, sock = 0, connected = 0,
      data_ev_active = False, data_ev_cb = None, data_ev_fd = 0, data_ev_events = EV_NONE,
      tx_queue = [], tx_queue_st = Null, rx_queue = [], rx_queue_st = Null,
      read_cb = None, write_cb = None, event_cb = None, cb_arg = 0, calls = []\<rparr>"

text \<open>
  \<^verbatim>\<open>bufferev_new\<close>. The three booleans say whether \<^verbatim>\<open>calloc\<close> and the two calls of
  \<^verbatim>\<open>buffer_queue_new\<close> succeed. \<open>Inr be\<close> is the new connection; \<open>Inl cs\<close> is
  \<^verbatim>\<open>NULL\<close>, returned after the calls \<open>cs\<close> were made on the way out.
\<close>

definition bufferev_new :: "bool \<Rightarrow> bool \<Rightarrow> bool \<Rightarrow> nat \<Rightarrow> call list + bufferev" where
  "bufferev_new calloc_ok rx_ok tx_ok lp =
     (if \<not> calloc_ok then Inl []
      else
        (let be1 = zeroed\<lparr>rx_queue_st := (if rx_ok then Live else Null)\<rparr>
         in if rx_queue_st be1 = Null then Inl (calls (bufferev_free_obj be1))
            else
              (let be2 = be1\<lparr>tx_queue_st := (if tx_ok then Live else Null)\<rparr>
               in if tx_queue_st be2 = Null then Inl (calls (bufferev_free_obj be2))
                  else Inr (be2\<lparr>loop := lp\<rparr>))))"

section \<open>Buffered input and output\<close>

subsection \<open>The byte queues\<close>

text \<open>
  Modelled from the spec: the functions of buffer_queue.c, which is not among the sources.
  The spec's contract for the queue is \<^verbatim>\<open>append(bytes)\<close>, \<^verbatim>\<open>length() -> size\<close>,
  \<^verbatim>\<open>copy(max_len) -> bytes\<close> (non-destructive) and \<^verbatim>\<open>remove(max_len) -> bytes\<close>
  (destructive), on a FIFO of bytes; of the value \<^verbatim>\<open>buffer_queue_add\<close> returns the
  spec says, for the Tls write that returns it, that it is the number of bytes enqueued.
  A queue is the list of its bytes, oldest first. \<open>buffer_queue_copy\<close> gives the bytes put
  into the caller's buffer (the C function returns their number), \<open>buffer_queue_remove\<close>
  these bytes and the queue that is left.
\<close>

definition buffer_queue_len :: "byte list \<Rightarrow> nat" where
  "buffer_queue_len q = length q"

definition buffer_queue_copy :: "byte list \<Rightarrow> nat \<Rightarrow> byte list" where
  "buffer_queue_copy q buflen = take buflen q"

definition buffer_queue_remove :: "byte list \<Rightarrow> nat \<Rightarrow> byte list \<times> byte list" where
  "buffer_queue_remove q buflen = (take buflen q, drop buflen q)"

definition buffer_queue_add :: "byte list \<Rightarrow> byte list \<Rightarrow> int \<times> byte list" where
  "buffer_queue_add q data = (int (length data), q @ data)"

text \<open>
  \<^verbatim>\<open>bufferev_bytes_available\<close>, \<^verbatim>\<open>bufferev_peek\<close>, \<^verbatim>\<open>bufferev_read\<close>. The last two
  return the number of bytes and, here, the bytes written to \<^verbatim>\<open>buf\<close>.
\<close>

definition bufferev_bytes_available :: "bufferev \<Rightarrow> nat" where
  "bufferev_bytes_available be = buffer_queue_len (rx_queue be)"

definition bufferev_peek :: "bufferev \<Rightarrow> nat \<Rightarrow> nat \<times> byte list" where
  "bufferev_peek be buflen =
     (let bs = buffer_queue_copy (rx_queue be) buflen in (length bs, bs))"

definition bufferev_read :: "bufferev \<Rightarrow> nat \<Rightarrow> (nat \<times> byte list) \<times> bufferev" where
  "bufferev_read be buflen =
     (let (bs, q) = buffer_queue_remove (rx_queue be) buflen
      in ((length bs, bs), be\<lparr>rx_queue := q\<rparr>))"

subsection \<open>Writing\<close>

text \<open>
  What the socket answers to one \<^verbatim>\<open>send\<close>: it takes up to \<open>k\<close> of the bytes offered
  (\<open>Sent k\<close>), or fails with an error number. \<open>send_rc\<close> is the value returned for a
  request of \<open>len\<close> bytes, \<open>send_errno\<close> the error number set by a failure.
\<close>

datatype send_res = Sent nat | SendErr errno

fun send_rc :: "send_res \<Rightarrow> nat \<Rightarrow> int" where
  "send_rc (Sent k) len = int (min k len)"
| "send_rc (SendErr e) len = -1"

fun send_errno :: "send_res \<Rightarrow> errno option" where
  "send_errno (Sent k) = None"
| "send_errno (SendErr e) = Some e"

text \<open>
  The \<^verbatim>\<open>do ... while\<close> loop of the tcp case. The list holds the socket's answers to the
  successive calls of \<^verbatim>\<open>send\<close>; as long as the loop goes on it asks for the next one,
  and with no answer left the call has not returned: the result is \<open>None\<close>.
  \<^verbatim>\<open>buf + off\<close> is \<open>drop off buf\<close> and \<^verbatim>\<open>buflen - off\<close> its length. Lengths are
  natural numbers: the wrap-around of \<^verbatim>\<open>ssize_t\<close> beyond \<open>2^63 - 1\<close> bytes is not
  modelled.
\<close>

fun tcp_send_loop ::
  "send_res list \<Rightarrow> byte list \<Rightarrow> nat \<Rightarrow> int \<Rightarrow> bufferev \<Rightarrow> (int \<times> bufferev) option" where
  "tcp_send_loop [] buf off sent_bytes be = None"
| "tcp_send_loop (r # rs) buf off sent_bytes be =
     (let rc = send_rc r (length buf - off);
          be1 = emit (Call_send (sock be) (drop off buf) rc) be;
          off1 = (if rc > 0 then off + nat rc else off);
          sent1 = (if rc > 0 then sent_bytes + rc else sent_bytes)
      in if rc > 0 \<or> (rc < 0 \<and> (send_errno r = Some EAGAIN \<or> send_errno r = Some EINTR))
         then tcp_send_loop rs buf off1 sent1 be1
         else Some (sent1, be1))"

text \<open>
  \<^verbatim>\<open>bufferev_write\<close>; \<open>buf\<close> is the \<^verbatim>\<open>buflen\<close> bytes at \<^verbatim>\<open>buf\<close>. The
  \<^verbatim>\<open>return -1\<close> after the switch is reached by no enumerator.
\<close>

definition bufferev_write ::
  "send_res list \<Rightarrow> bufferev \<Rightarrow> byte list \<Rightarrow> (int \<times> bufferev) option" where
  "bufferev_write answers be buf =
     (case proto be of
        network_proto_udp \<Rightarrow>
          (case answers of
             [] \<Rightarrow> None
           | r # rs \<Rightarrow>
               (let rc = send_rc r (length buf)
                in Some (rc, emit (Call_send (sock be) buf rc) be)))
      | network_proto_tcp \<Rightarrow> tcp_send_loop answers buf 0 0 be
      | network_proto_tls \<Rightarrow>
          (let (rc, q) = buffer_queue_add (tx_queue be) buf
           in Some (rc, be\<lparr>tx_queue := q\<rparr>)))"

subsection \<open>Reading\<close>

text \<open>
  What the socket answers to one \<^verbatim>\<open>recv\<close>: the bytes it hands out (none at the end
  of the stream), or a failure. \<open>recv_rc\<close> is the value returned for a buffer of \<open>len\<close>
  bytes and \<open>recv_buf\<close> what the buffer then starts with: never more than \<open>len\<close> bytes
  (a stream socket hands out no more, and of a longer datagram the rest is discarded).
\<close>

datatype recv_res = Recv "byte list" | RecvErr errno

fun recv_rc :: "recv_res \<Rightarrow> nat \<Rightarrow> int" where
  "recv_rc (Recv bs) len = int (min (length bs) len)"
| "recv_rc (RecvErr e) len = -1"

fun recv_buf :: "recv_res \<Rightarrow> nat \<Rightarrow> byte list" where
  "recv_buf (Recv bs) len = take len bs"
| "recv_buf (RecvErr e) len = []"

text \<open>
  \<^verbatim>\<open>if (be->read_cb) be->read_cb(be, be->cb_arg);\<close> The call is recorded with the
  queue as the handler finds it; then the handler takes its bytes.
\<close>

definition call_read_cb :: "bufferev \<Rightarrow> bufferev" where
  "call_read_cb be =
     (case read_cb be of
        None \<Rightarrow> be
      | Some h \<Rightarrow> snd (bufferev_read (emit (Call_read_cb (rx_queue be)) be) (h (rx_queue be))))"

text \<open>
  The \<^verbatim>\<open>while ((rc = recv(be->sock, buf, sizeof(buf), 0)) > 0)\<close> loop, with
  \<^verbatim>\<open>char buf[4096]\<close>. The list holds the socket's answers to the successive calls of
  \<^verbatim>\<open>recv\<close>; with no answer left the loop has not ended and the result is \<open>None\<close>.
\<close>

fun on_read_loop :: "recv_res list \<Rightarrow> int \<Rightarrow> bufferev \<Rightarrow> (int \<times> bufferev) option" where
  "on_read_loop [] bytes_read be = None"
| "on_read_loop (r # rs) bytes_read be =
     (let rc = recv_rc r 4096;
          be1 = emit (Call_recv (sock be) rc) be
      in if rc > 0
         then on_read_loop rs (bytes_read + rc)
                (call_read_cb
                   (be1\<lparr>rx_queue := snd (buffer_queue_add (rx_queue be1) (recv_buf r 4096))\<rparr>))
         else Some (bytes_read, be1))"

definition on_read :: "recv_res list \<Rightarrow> bufferev \<Rightarrow> bufferev option" where
  "on_read answers be =
     (case on_read_loop answers 0 be of
        None \<Rightarrow> None
      | Some (bytes_read, be1) \<Rightarrow>
          Some (if bytes_read \<le> 0 then call_event_cb {BEV_EOF} (ev_io_stop be1) else be1))"

section \<open>The event loop\<close>

text \<open>
  What libev does with the two watchers of a connection. \<open>TimerFire\<close>: the connect timer
  has run out. \<open>IoReady status answers\<close>: the descriptor of \<^verbatim>\<open>data_ev\<close> is ready;
  \<open>status\<close> is what \<^verbatim>\<open>getsockopt\<close> will report and \<open>answers\<close> what \<^verbatim>\<open>recv\<close>
  will answer, whichever handler is installed. A handler runs only if its watcher is active.
\<close>

datatype reactor_event = IoReady int "recv_res list" | TimerFire

definition dispatch :: "reactor_event \<Rightarrow> bufferev \<Rightarrow> bufferev option" where
  "dispatch ev be =
     (case ev of
        TimerFire \<Rightarrow> Some (if connect_timer_active be then on_connect_timeout be else be)
      | IoReady status answers \<Rightarrow>
          (if data_ev_active be
           then (case data_ev_cb be of
                   None \<Rightarrow> Some be
                 | Some H_on_connect \<Rightarrow> Some (on_connect status be)
                 | Some H_on_read \<Rightarrow> on_read answers be)
           else Some be))"

fun run :: "reactor_event list \<Rightarrow> bufferev \<Rightarrow> bufferev option" where
  "run [] be = Some be"
| "run (ev # evs) be = (case dispatch ev be of None \<Rightarrow> None | Some be1 \<Rightarrow> run evs be1)"

text \<open>The flag sets of the calls of \<^verbatim>\<open>event_cb\<close> in a record of calls, in order.\<close>

fun events_of :: "call list \<Rightarrow> bev_flag set list" where
  "events_of [] = []"
| "events_of (Call_event_cb flags # cs) = flags # events_of cs"
| "events_of (c # cs) = events_of cs"

text \<open>The queues the calls of \<^verbatim>\<open>read_cb\<close> found, in order.\<close>

fun read_cbs_of :: "call list \<Rightarrow> byte list list" where
  "read_cbs_of [] = []"
| "read_cbs_of (Call_read_cb q # cs) = q # read_cbs_of cs"
| "read_cbs_of (c # cs) = read_cbs_of cs"

text \<open>The bytes the socket took in the calls of \<^verbatim>\<open>send\<close>, in order.\<close>

fun wire_of :: "call list \<Rightarrow> byte list" where
  "wire_of [] = []"
| "wire_of (Call_send fd bs rc # cs) = take (nat rc) bs @ wire_of cs"
| "wire_of (c # cs) = wire_of cs"

text \<open>The values the calls of \<^verbatim>\<open>recv\<close> returned, in order.\<close>

fun recvs_of :: "call list \<Rightarrow> int list" where
  "recvs_of [] = []"
| "recvs_of (Call_recv fd rc # cs) = rc # recvs_of cs"
| "recvs_of (c # cs) = recvs_of cs"

section \<open>Address introspection\<close>

text \<open>
  What \<^verbatim>\<open>getsockname\<close> or \<^verbatim>\<open>getpeername\<close> stores in the caller's
  \<^verbatim>\<open>struct sockaddr_storage\<close>: the family, the port (the number that \<^verbatim>\<open>sin_port\<close> or
  \<^verbatim>\<open>sin6_port\<close> hold in network byte order) and the bytes of the address.
\<close>

record sockaddr_storage =
  ss_family :: int
  ss_port :: nat
  ss_addr :: "byte list"

definition AF_INET :: int where
  "AF_INET = 2"

definition AF_INET6 :: int where
  "AF_INET6 = 10"

text \<open>
  \<^verbatim>\<open>inet_ntop(AF_INET, ...)\<close>: four bytes in dotted decimal. The text form of an IPv6
  address is the C library's and is a parameter \<open>ntop6\<close> below.
\<close>

definition digit :: "nat \<Rightarrow> char" where
  "digit n = char_of (48 + n)"

definition dec_byte :: "byte \<Rightarrow> string" where
  "dec_byte b =
     (let n = unat b
      in if n < 10 then [digit n]
         else if n < 100 then [digit (n div 10), digit (n mod 10)]
         else [digit (n div 100), digit (n div 10 mod 10), digit (n mod 10)])"

definition inet_ntop4 :: "byte \<Rightarrow> byte \<Rightarrow> byte \<Rightarrow> byte \<Rightarrow> string" where
  "inet_ntop4 a b c d = dec_byte a @ ''.'' @ dec_byte b @ ''.'' @ dec_byte c @ ''.'' @ dec_byte d"

text \<open>
  \<^verbatim>\<open>parse_sockaddr(struct sockaddr_storage *addr, uint16_t *port)\<close> reads the family
  through \<^verbatim>\<open>addr\<close>, but the port and the address through
  \<^verbatim>\<open>s = (struct sockaddr_in *)&addr\<close>: \<^verbatim>\<open>&addr\<close> is the address of the parameter
  itself, so \<^verbatim>\<open>s\<close> points at the eight bytes that hold the pointer, not at the
  structure the pointer points to. The model is for a machine with 64-bit pointers stored
  low byte first, and the usual layout of \<^verbatim>\<open>sockaddr_in\<close> and \<^verbatim>\<open>sockaddr_in6\<close>
  (port at offset 2, IPv4 address at offset 4, IPv6 address at offset 8).
  \<open>at_param p beyond i\<close> is the byte at offset \<open>i\<close> from \<^verbatim>\<open>&addr\<close> when the pointer
  is \<open>p\<close> and \<open>beyond\<close> gives the memory that follows the parameter.
\<close>

definition at_param :: "64 word \<Rightarrow> (nat \<Rightarrow> byte) \<Rightarrow> nat \<Rightarrow> byte" where
  "at_param p beyond i = (if i < 8 then ucast (drop_bit (8 * i) p) else beyond (i - 8))"

text \<open>\<^verbatim>\<open>ntohs\<close> of the two bytes at offsets 2 and 3.\<close>

definition port_at :: "64 word \<Rightarrow> (nat \<Rightarrow> byte) \<Rightarrow> nat" where
  "port_at p beyond = 256 * unat (at_param p beyond 2) + unat (at_param p beyond 3)"

text \<open>
  The result is the text left in \<^verbatim>\<open>host\<close> (which starts out as zeros, the empty
  string) and the value of \<^verbatim>\<open>*port\<close> afterwards; \<open>port\<close> is its value before.
\<close>

definition parse_sockaddr ::
  "(byte list \<Rightarrow> string) \<Rightarrow> 64 word \<Rightarrow> (nat \<Rightarrow> byte) \<Rightarrow> sockaddr_storage \<Rightarrow> nat
     \<Rightarrow> string \<times> nat" where
  "parse_sockaddr ntop6 p beyond addr port =
     (if ss_family addr = AF_INET
      then (inet_ntop4 (at_param p beyond 4) (at_param p beyond 5)
              (at_param p beyond 6) (at_param p beyond 7),
            port_at p beyond)
      else if ss_family addr = AF_INET6
      then (ntop6 (map (at_param p beyond) [8..<24]), port_at p beyond)
      else ([], port))"

text \<open>
  \<^verbatim>\<open>bufferev_get_local_addr\<close> and \<^verbatim>\<open>bufferev_get_peer_addr\<close>. \<open>answer\<close> is what
  \<^verbatim>\<open>getsockname\<close> (or \<^verbatim>\<open>getpeername\<close>) does on \<^verbatim>\<open>be->sock\<close>: \<open>None\<close> when it
  returns -1, otherwise the structure it fills in; \<open>p\<close> is the address of that structure,
  the local \<^verbatim>\<open>addr\<close>. \<open>strdup_ok\<close> says whether \<^verbatim>\<open>strdup\<close> finds memory. The
  result is the string returned (\<open>None\<close> for \<^verbatim>\<open>NULL\<close>) and \<^verbatim>\<open>*port\<close> afterwards.
\<close>

definition bufferev_get_local_addr ::
  "(byte list \<Rightarrow> string) \<Rightarrow> bool \<Rightarrow> 64 word \<Rightarrow> (nat \<Rightarrow> byte) \<Rightarrow> sockaddr_storage option
     \<Rightarrow> bufferev \<Rightarrow> nat \<Rightarrow> string option \<times> nat" where
  "bufferev_get_local_addr ntop6 strdup_ok p beyond answer be port =
     (case answer of
        None \<Rightarrow> (None, port)
      | Some addr \<Rightarrow>
          (let (host, port1) = parse_sockaddr ntop6 p beyond addr port
           in (if strdup_ok then Some host else None, port1)))"

definition bufferev_get_peer_addr ::
  "(byte list \<Rightarrow> string) \<Rightarrow> bool \<Rightarrow> 64 word \<Rightarrow> (nat \<Rightarrow> byte) \<Rightarrow> sockaddr_storage option
     \<Rightarrow> bufferev \<Rightarrow> nat \<Rightarrow> string option \<times> nat" where
  "bufferev_get_peer_addr ntop6 strdup_ok p beyond answer be port =
     (case answer of
        None \<Rightarrow> (None, port)
      | Some addr \<Rightarrow>
          (let (host, port1) = parse_sockaddr ntop6 p beyond addr port
           in (if strdup_ok then Some host else None, port1)))"

section \<open>Notions used to state the properties\<close>

text \<open>
  An answer to \<^verbatim>\<open>send\<close> is transient when it is the failure \<^verbatim>\<open>EAGAIN\<close> or
  \<^verbatim>\<open>EINTR\<close>, and a hard error when it is any other failure.
\<close>

definition transient :: "send_res \<Rightarrow> bool" where
  "transient a = (a = SendErr EAGAIN \<or> a = SendErr EINTR)"

definition hard :: "send_res \<Rightarrow> bool" where
  "hard a = (case a of Sent k \<Rightarrow> False | SendErr e \<Rightarrow> e \<noteq> EAGAIN \<and> e \<noteq> EINTR)"

text \<open>
  In the state \<open>s\<close> the owner sees the chunk \<open>c\<close> as the newest bytes received:
  \<^verbatim>\<open>bufferev_bytes_available\<close> counts them and \<^verbatim>\<open>bufferev_peek\<close> of everything
  available ends with them.
\<close>

definition chunk_seen :: "byte list \<Rightarrow> bufferev \<Rightarrow> bool" where
  "chunk_seen c s =
     (length c \<le> bufferev_bytes_available s
      \<and> drop (bufferev_bytes_available s - length c)
             (snd (bufferev_peek s (bufferev_bytes_available s))) = c)"

text \<open>
  One round of the receive loop for an answer with the bytes \<open>c\<close>: the call of
  \<^verbatim>\<open>recv\<close>, the append to \<^verbatim>\<open>rx_queue\<close>, the call of the handler.
\<close>

definition read_step :: "byte list \<Rightarrow> bufferev \<Rightarrow> bufferev" where
  "read_step c be =
     call_read_cb
       ((emit (Call_recv (sock be) (int (min (length c) 4096))) be)
          \<lparr>rx_queue := rx_queue be @ take 4096 c\<rparr>)"

text \<open>
  An event settles a connect attempt when it carries Connected or Error. In a list of
  events, a Timeout comes after a Connected when some event carrying Connected is followed
  by one carrying Timeout.
\<close>

definition settles :: "bev_flag set \<Rightarrow> bool" where
  "settles flags = (BEV_CONNECTED \<in> flags \<or> BEV_ERROR \<in> flags)"

fun timeout_after_connected :: "bev_flag set list \<Rightarrow> bool" where
  "timeout_after_connected [] = False"
| "timeout_after_connected (flags # rest) =
     ((BEV_CONNECTED \<in> flags \<and> list_ex (\<lambda>later. BEV_TIMEOUT \<in> later) rest)
      \<or> timeout_after_connected rest)"

section \<open>Properties of the protocol registry\<close>

text \<open>
  C1. The round trip \<open>network_str_to_proto (network_proto_to_str p) = p\<close> is claimed for
  each of the three protocols. The table has no row whose protocol is
  \<^verbatim>\<open>network_proto_tls\<close>, so that protocol is named \<^verbatim>\<open>"unknown"\<close>, and the name
  \<^verbatim>\<open>"unknown"\<close> (like the name \<^verbatim>\<open>"tls"\<close> itself) is read back as
  \<^verbatim>\<open>network_proto_tcp\<close>: the round trip holds for udp and tcp and breaks for tls.
\<close>

theorem C1_round_trip_breaks_for_tls:
  "network_proto_to_str network_proto_tls = ''unknown''
   \<and> network_str_to_proto (network_proto_to_str network_proto_tls) = network_proto_tcp
   \<and> network_str_to_proto ''tls'' = network_proto_tcp
   \<and> network_str_to_proto (network_proto_to_str network_proto_udp) = network_proto_udp
   \<and> network_str_to_proto (network_proto_to_str network_proto_tcp) = network_proto_tcp"
  by (simp add: network_proto_to_str_def network_str_to_proto_def proto_list_def tolower_def)

section \<open>Properties of the connect timeout, of teardown and of construction\<close>

lemmas lib_defs = emit_def ev_io_stop_def ev_io_init_def ev_io_start_def ev_timer_stop_def
  ev_timer_init_def ev_timer_start_def call_event_cb_def close_sock_def

lemmas free_defs = bufferev_free_obj_def buffer_queue_free_rx_def buffer_queue_free_tx_def

text \<open>
  C5. When the connect timer fires on a connection that is not yet connected
  (\<^verbatim>\<open>connected\<close> is 0), holds a descriptor and has an event handler, \<^verbatim>\<open>on_connect_timeout\<close>
  makes exactly four calls, in this order: it stops the timer, closes the descriptor, stops
  the watch and delivers one event whose flags are Error and Timeout. Afterwards neither
  watcher is active and the connection holds no descriptor.
\<close>

theorem C5_timeout_while_unresolved:
  assumes "connected be = 0" and "0 \<le> sock be" and "event_cb be = Some f"
  shows "calls (on_connect_timeout be) =
           calls be @ [Call_ev_timer_stop, Call_close (sock be), Call_ev_io_stop,
                       Call_event_cb {BEV_ERROR, BEV_TIMEOUT}]
         \<and> \<not> connect_timer_active (on_connect_timeout be)
         \<and> \<not> data_ev_active (on_connect_timeout be)
         \<and> sock (on_connect_timeout be) = -1"
  using assms by (simp add: on_connect_timeout_def lib_defs)

text \<open>
  The same on a connection made by \<^verbatim>\<open>bufferev_connect_addrinfo\<close> with descriptor 5 and a
  connect in progress: the whole record of calls.
\<close>

theorem C5_timeout_while_unresolved_witness:
  "calls (on_connect_timeout
            (snd (bufferev_connect_addrinfo 5 (ConnErr EINPROGRESS) None
                    \<lparr>ai_family = 2, ai_socktype = 1, ai_protocol = 6\<rparr> 50
                    (bufferev_setcbs zeroed None None (Some 1) 0)))) =
     [Call_socket 5, Call_make_socket_nonblocking 5, Call_connect 5,
      Call_ev_io_start (Some H_on_connect) 5 EV_WRITE, Call_ev_timer_start 50,
      Call_ev_timer_stop, Call_close 5, Call_ev_io_stop,
      Call_event_cb {BEV_ERROR, BEV_TIMEOUT}]"
  using C5_timeout_while_unresolved
    [of "snd (bufferev_connect_addrinfo 5 (ConnErr EINPROGRESS) None
                \<lparr>ai_family = 2, ai_socktype = 1, ai_protocol = 6\<rparr> 50
                (bufferev_setcbs zeroed None None (Some 1) 0))" 1]
  by (simp add: bufferev_connect_addrinfo_def bufferev_setcbs_def zeroed_def lib_defs
        IPPROTO_UDP_def)

text \<open>
  C2, as claimed, fails. A connection is made, given descriptor 5 and left connecting, so
  that its timer is armed, and then torn down: the calls made on it include the start of
  the timer and no stop of it. A second \<^verbatim>\<open>bufferev_free\<close> on the same pointer is not a
  harmless repetition: the pointer points to released memory and the call reads it. Nor is
  every callback a safe place for teardown: after the Connected callback \<^verbatim>\<open>on_connect\<close>
  goes on to start the read watch in the object, and after a data callback \<^verbatim>\<open>on_read\<close>
  goes on to call \<^verbatim>\<open>recv\<close> on the object's descriptor.
\<close>

theorem C2_teardown_counterexample:
  "\<exists>be0 be1 cs.
     bufferev_new True True True 0 = Inr be0
     \<and> be1 = snd (bufferev_connect_addrinfo 5 (ConnErr EINPROGRESS) None
                   \<lparr>ai_family = 2, ai_socktype = 1, ai_protocol = 6\<rparr> 50
                   (bufferev_setcbs be0 (Some (\<lambda>q. 0)) None (Some 1) 0))
     \<and> bufferev_free (Be_live be1) = Inr (Be_released cs)
     \<and> cs = [Call_socket 5, Call_make_socket_nonblocking 5, Call_connect 5,
             Call_ev_io_start (Some H_on_connect) 5 EV_WRITE, Call_ev_timer_start 50,
             Call_ev_io_stop, Call_buffer_queue_free RX Live, Call_buffer_queue_free TX Live,
             Call_close 5, Call_free]
     \<and> Call_ev_timer_stop \<notin> set cs
     \<and> bufferev_free (Be_released cs) = Inl Use_after_free
     \<and> calls (on_connect 0 be1)
         = [Call_socket 5, Call_make_socket_nonblocking 5, Call_connect 5,
            Call_ev_io_start (Some H_on_connect) 5 EV_WRITE, Call_ev_timer_start 50,
            Call_ev_io_stop, Call_ev_timer_stop, Call_getsockopt 5,
            Call_event_cb {BEV_CONNECTED}, Call_ev_io_start (Some H_on_read) 5 EV_READ]
     \<and> map_option calls (on_read [Recv [1, 2], RecvErr EAGAIN] (on_connect 0 be1))
         = Some [Call_socket 5, Call_make_socket_nonblocking 5, Call_connect 5,
                 Call_ev_io_start (Some H_on_connect) 5 EV_WRITE, Call_ev_timer_start 50,
                 Call_ev_io_stop, Call_ev_timer_stop, Call_getsockopt 5,
                 Call_event_cb {BEV_CONNECTED}, Call_ev_io_start (Some H_on_read) 5 EV_READ,
                 Call_recv 5 2, Call_read_cb [1, 2], Call_recv 5 (-1)]"
  by (simp add: bufferev_new_def bufferev_free_def bufferev_connect_addrinfo_def zeroed_def
        bufferev_setcbs_def free_defs lib_defs IPPROTO_UDP_def on_connect_def on_read_def
        call_read_cb_def bufferev_read_def buffer_queue_remove_def buffer_queue_add_def
        Let_def)

text \<open>
  C2, amended. On a connection whose two queues are live, \<^verbatim>\<open>bufferev_free\<close> stops the
  watch, frees the receive queue and the transmit queue once each, closes the descriptor
  if the connection holds one, and releases the object, in this order; on \<^verbatim>\<open>NULL\<close> it
  does nothing. Called from within a delivered Error, Error with Timeout or Eof callback,
  which is the last thing \<^verbatim>\<open>on_connect\<close>, \<^verbatim>\<open>on_connect_timeout\<close> and \<^verbatim>\<open>on_read\<close>
  do, the calls of the handler and of the teardown together free each queue once and
  close the descriptor once (after a timeout the handler has closed it and the teardown
  does not close it again). It is not idempotent and not safe in every callback: a second
  call on the same pointer reads released memory, and after a Connected callback
  \<^verbatim>\<open>on_connect\<close> still starts the read watch in the object.
\<close>

theorem C2_teardown_once:
  assumes "rx_queue_st be = Live" and "tx_queue_st be = Live"
  shows "bufferev_free (Be_live be)
           = Inr (Be_released
               (calls be @ [Call_ev_io_stop, Call_buffer_queue_free RX Live,
                            Call_buffer_queue_free TX Live]
                  @ (if 0 \<le> sock be then [Call_close (sock be)] else []) @ [Call_free]))
         \<and> bufferev_free Be_null = Inr Be_null
         \<and> bufferev_free (Be_released cs) = Inl Use_after_free
         \<and> (connected be = 0 \<and> event_cb be \<noteq> None \<longrightarrow>
              bufferev_free (Be_live (on_connect_timeout be))
                = Inr (Be_released
                    (calls be @ [Call_ev_timer_stop]
                       @ (if 0 \<le> sock be then [Call_close (sock be)] else [])
                       @ [Call_ev_io_stop, Call_event_cb {BEV_ERROR, BEV_TIMEOUT},
                          Call_ev_io_stop, Call_buffer_queue_free RX Live,
                          Call_buffer_queue_free TX Live, Call_free])))
         \<and> (status \<noteq> 0 \<and> event_cb be \<noteq> None \<longrightarrow>
              bufferev_free (Be_live (on_connect status be))
                = Inr (Be_released
                    (calls be @ [Call_ev_io_stop, Call_ev_timer_stop,
                                 Call_getsockopt (sock be), Call_event_cb {BEV_ERROR},
                                 Call_ev_io_stop, Call_buffer_queue_free RX Live,
                                 Call_buffer_queue_free TX Live]
                       @ (if 0 \<le> sock be then [Call_close (sock be)] else [])
                       @ [Call_free])))
         \<and> (recv_rc stop 4096 \<le> 0 \<and> event_cb be \<noteq> None \<longrightarrow>
              (\<exists>be'. on_read (stop # rest) be = Some be'
                 \<and> bufferev_free (Be_live be')
                     = Inr (Be_released
                         (calls be @ [Call_recv (sock be) (recv_rc stop 4096),
                                      Call_ev_io_stop, Call_event_cb {BEV_EOF},
                                      Call_ev_io_stop, Call_buffer_queue_free RX Live,
                                      Call_buffer_queue_free TX Live]
                            @ (if 0 \<le> sock be then [Call_close (sock be)] else [])
                            @ [Call_free]))))
         \<and> (event_cb be \<noteq> None \<longrightarrow>
              calls (on_connect 0 be)
                = calls be @ [Call_ev_io_stop, Call_ev_timer_stop, Call_getsockopt (sock be),
                              Call_event_cb {BEV_CONNECTED},
                              Call_ev_io_start (Some H_on_read) (sock be) EV_READ])"
proof (intro conjI impI)
  show "bufferev_free (Be_live be)
           = Inr (Be_released
               (calls be @ [Call_ev_io_stop, Call_buffer_queue_free RX Live,
                            Call_buffer_queue_free TX Live]
                  @ (if 0 \<le> sock be then [Call_close (sock be)] else []) @ [Call_free]))"
    using assms by (simp add: bufferev_free_def free_defs lib_defs)
next
  show "bufferev_free Be_null = Inr Be_null" by (simp add: bufferev_free_def)
next
  show "bufferev_free (Be_released cs) = Inl Use_after_free" by (simp add: bufferev_free_def)
next
  assume "connected be = 0 \<and> event_cb be \<noteq> None"
  then show "bufferev_free (Be_live (on_connect_timeout be))
                = Inr (Be_released
                    (calls be @ [Call_ev_timer_stop]
                       @ (if 0 \<le> sock be then [Call_close (sock be)] else [])
                       @ [Call_ev_io_stop, Call_event_cb {BEV_ERROR, BEV_TIMEOUT},
                          Call_ev_io_stop, Call_buffer_queue_free RX Live,
                          Call_buffer_queue_free TX Live, Call_free]))"
    using assms by (auto simp add: bufferev_free_def free_defs lib_defs on_connect_timeout_def)
next
  assume "status \<noteq> 0 \<and> event_cb be \<noteq> None"
  then show "bufferev_free (Be_live (on_connect status be))
                = Inr (Be_released
                    (calls be @ [Call_ev_io_stop, Call_ev_timer_stop,
                                 Call_getsockopt (sock be), Call_event_cb {BEV_ERROR},
                                 Call_ev_io_stop, Call_buffer_queue_free RX Live,
                                 Call_buffer_queue_free TX Live]
                       @ (if 0 \<le> sock be then [Call_close (sock be)] else [])
                       @ [Call_free]))"
    using assms by (auto simp add: bufferev_free_def free_defs lib_defs on_connect_def)
next
  assume a: "recv_rc stop 4096 \<le> 0 \<and> event_cb be \<noteq> None"
  then have l: "on_read_loop (stop # rest) 0 be
                  = Some (0, emit (Call_recv (sock be) (recv_rc stop 4096)) be)"
    by (simp add: Let_def)
  let ?be' = "call_event_cb {BEV_EOF}
                (ev_io_stop (emit (Call_recv (sock be) (recv_rc stop 4096)) be))"
  have r: "on_read (stop # rest) be = Some ?be'"
    unfolding on_read_def l by simp
  have f: "bufferev_free (Be_live ?be')
             = Inr (Be_released
                 (calls be @ [Call_recv (sock be) (recv_rc stop 4096),
                              Call_ev_io_stop, Call_event_cb {BEV_EOF},
                              Call_ev_io_stop, Call_buffer_queue_free RX Live,
                              Call_buffer_queue_free TX Live]
                    @ (if 0 \<le> sock be then [Call_close (sock be)] else [])
                    @ [Call_free]))"
    using assms a by (auto simp add: bufferev_free_def free_defs lib_defs)
  from r f show "\<exists>be'. on_read (stop # rest) be = Some be'
                 \<and> bufferev_free (Be_live be')
                     = Inr (Be_released
                         (calls be @ [Call_recv (sock be) (recv_rc stop 4096),
                                      Call_ev_io_stop, Call_event_cb {BEV_EOF},
                                      Call_ev_io_stop, Call_buffer_queue_free RX Live,
                                      Call_buffer_queue_free TX Live]
                            @ (if 0 \<le> sock be then [Call_close (sock be)] else [])
                            @ [Call_free]))"
    by (intro exI conjI)
next
  assume "event_cb be \<noteq> None"
  then show "calls (on_connect 0 be)
                = calls be @ [Call_ev_io_stop, Call_ev_timer_stop, Call_getsockopt (sock be),
                              Call_event_cb {BEV_CONNECTED},
                              Call_ev_io_start (Some H_on_read) (sock be) EV_READ]"
    by (auto simp add: lib_defs on_connect_def)
qed

text \<open>
  A connection made by \<^verbatim>\<open>bufferev_new\<close>, with an event handler, connecting on
  descriptor 5: torn down from within the Error with Timeout callback, the descriptor is
  closed once, by the timeout handler, and each queue is freed once.
\<close>

theorem C2_teardown_once_witness:
  "\<exists>be0 be1.
     bufferev_new True True True 0 = Inr be0
     \<and> be1 = snd (bufferev_connect_addrinfo 5 (ConnErr EINPROGRESS) None
                   \<lparr>ai_family = 2, ai_socktype = 1, ai_protocol = 6\<rparr> 50
                   (bufferev_setcbs be0 None None (Some 1) 0))
     \<and> bufferev_free (Be_live (on_connect_timeout be1))
         = Inr (Be_released
             [Call_socket 5, Call_make_socket_nonblocking 5, Call_connect 5,
              Call_ev_io_start (Some H_on_connect) 5 EV_WRITE, Call_ev_timer_start 50,
              Call_ev_timer_stop, Call_close 5, Call_ev_io_stop,
              Call_event_cb {BEV_ERROR, BEV_TIMEOUT},
              Call_ev_io_stop, Call_buffer_queue_free RX Live,
              Call_buffer_queue_free TX Live, Call_free])
     \<and> bufferev_free (Be_live be1)
         = Inr (Be_released
             [Call_socket 5, Call_make_socket_nonblocking 5, Call_connect 5,
              Call_ev_io_start (Some H_on_connect) 5 EV_WRITE, Call_ev_timer_start 50,
              Call_ev_io_stop, Call_buffer_queue_free RX Live,
              Call_buffer_queue_free TX Live, Call_close 5, Call_free])"
  using C2_teardown_once
    [of "snd (bufferev_connect_addrinfo 5 (ConnErr EINPROGRESS) None
                \<lparr>ai_family = 2, ai_socktype = 1, ai_protocol = 6\<rparr> 50
                (bufferev_setcbs (zeroed\<lparr>rx_queue_st := Live, tx_queue_st := Live, loop := 0\<rparr>)
                   None None (Some 1) 0))"]
  by (simp add: bufferev_new_def bufferev_connect_addrinfo_def bufferev_setcbs_def zeroed_def
        lib_defs IPPROTO_UDP_def)

text \<open>
  C3 claims that a connection holds an open descriptor exactly while it is connecting or
  connected, so none when it is new and none after a terminal error. The source marks "no
  descriptor" by \<^verbatim>\<open>sock = -1\<close> (\<^verbatim>\<open>close_sock\<close> tests \<^verbatim>\<open>sock >= 0\<close>), but
  \<^verbatim>\<open>bufferev_new\<close> leaves \<^verbatim>\<open>sock\<close> at the 0 of \<^verbatim>\<open>calloc\<close>: a new connection counts
  as holding descriptor 0, and freeing it closes descriptor 0; the same happens on the way
  out of \<^verbatim>\<open>bufferev_new\<close> when a queue cannot be allocated. And when \<^verbatim>\<open>on_connect\<close>
  finds a pending error it delivers Error and returns with the descriptor still held and
  not closed, both watchers stopped.
\<close>

theorem C3_new_connection_holds_descriptor_0:
  "bufferev_new True True True lp
     = Inr (zeroed\<lparr>rx_queue_st := Live, tx_queue_st := Live, loop := lp\<rparr>)
   \<and> sock (zeroed\<lparr>rx_queue_st := Live, tx_queue_st := Live, loop := lp\<rparr>) = 0
   \<and> calls (bufferev_free_obj (zeroed\<lparr>rx_queue_st := Live, tx_queue_st := Live, loop := lp\<rparr>))
       = [Call_ev_io_stop, Call_buffer_queue_free RX Live, Call_buffer_queue_free TX Live,
          Call_close 0, Call_free]
   \<and> bufferev_new True False tx_ok lp
       = Inl [Call_ev_io_stop, Call_buffer_queue_free RX Null, Call_buffer_queue_free TX Null,
              Call_close 0, Call_free]
   \<and> sock (on_connect 111
        (snd (bufferev_connect_addrinfo 5 (ConnErr EINPROGRESS) None
                \<lparr>ai_family = 2, ai_socktype = 1, ai_protocol = 6\<rparr> 50
                (bufferev_setcbs zeroed None None (Some 1) 0)))) = 5
   \<and> calls (on_connect 111
        (snd (bufferev_connect_addrinfo 5 (ConnErr EINPROGRESS) None
                \<lparr>ai_family = 2, ai_socktype = 1, ai_protocol = 6\<rparr> 50
                (bufferev_setcbs zeroed None None (Some 1) 0))))
       = [Call_socket 5, Call_make_socket_nonblocking 5, Call_connect 5,
          Call_ev_io_start (Some H_on_connect) 5 EV_WRITE, Call_ev_timer_start 50,
          Call_ev_io_stop, Call_ev_timer_stop, Call_getsockopt 5,
          Call_event_cb {BEV_ERROR}]"
  by (simp add: bufferev_new_def zeroed_def free_defs lib_defs on_connect_def
        bufferev_connect_addrinfo_def bufferev_setcbs_def IPPROTO_UDP_def)

section \<open>Properties of writing\<close>

lemma wire_of_append: "wire_of (xs @ ys) = wire_of xs @ wire_of ys"
  by (induction xs rule: wire_of.induct) simp_all

lemma take_drop_step:
  "take m (drop off buf) @ take d (drop (off + m) buf) = take (m + d) (drop off buf)"
  by (metis add.commute drop_drop take_add)

lemma tcp_send_loop_sound:
  assumes "tcp_send_loop env buf off sent be = Some (r, be')"
    and "Sent 0 \<notin> set env" and "off \<le> length buf"
  shows "\<exists>d new used stop rest.
           r = sent + int d \<and> d \<le> length buf - off
           \<and> calls be' = calls be @ new \<and> wire_of new = take d (drop off buf)
           \<and> env = used @ stop # rest \<and> length new = Suc (length used)
           \<and> (\<forall>a \<in> set used. \<not> hard a)
           \<and> (hard stop \<or> d = length buf - off)"
  using assms
proof (induction env arbitrary: off sent be)
  case Nil
  then show ?case by simp
next
  case (Cons a env)
  show ?case
  proof (cases a)
    case (Sent k)
    with Cons.prems have k: "k \<noteq> 0" by auto
    show ?thesis
    proof (cases "off < length buf")
      case True
      define m where "m = min k (length buf - off)"
      have m: "0 < m" "m \<le> length buf - off" using True k by (auto simp: m_def)
      let ?be1 = "emit (Call_send (sock be) (drop off buf) (int m)) be"
      have step: "tcp_send_loop env buf (off + m) (sent + int m) ?be1 = Some (r, be')"
        using Cons.prems(1) Sent m by (simp add: m_def Let_def)
      have "Sent 0 \<notin> set env" "off + m \<le> length buf" using Cons.prems m by auto
      from Cons.IH[OF step this]
      obtain d new used stop rest where
        h: "r = sent + int m + int d" "d \<le> length buf - (off + m)"
           "calls be' = calls ?be1 @ new" "wire_of new = take d (drop (off + m) buf)"
           "env = used @ stop # rest" "length new = Suc (length used)"
           "\<forall>a \<in> set used. \<not> hard a" "hard stop \<or> d = length buf - (off + m)"
        by blast
      let ?new = "Call_send (sock be) (drop off buf) (int m) # new"
      have "r = sent + int (m + d)" using h by simp
      moreover have "m + d \<le> length buf - off" using h m by simp
      moreover have "calls be' = calls be @ ?new" using h by (simp add: emit_def)
      moreover have "wire_of ?new = take (m + d) (drop off buf)"
        using h by (simp add: take_drop_step)
      moreover have "a # env = (a # used) @ stop # rest" using h by simp
      moreover have "length ?new = Suc (length (a # used))" using h by simp
      moreover have "\<forall>x \<in> set (a # used). \<not> hard x" using h Sent by (simp add: hard_def)
      moreover have "hard stop \<or> m + d = length buf - off" using h m by auto
      ultimately show ?thesis by blast
    next
      case False
      with Cons.prems have off: "off = length buf" by simp
      let ?be1 = "emit (Call_send (sock be) (drop off buf) 0) be"
      have res: "r = sent" "be' = ?be1"
        using Cons.prems(1) Sent off by (simp_all add: Let_def)
      let ?new = "[Call_send (sock be) (drop off buf) 0]"
      have "r = sent + int 0" using res by simp
      moreover have "(0::nat) \<le> length buf - off" by simp
      moreover have "calls be' = calls be @ ?new" using res by (simp add: emit_def)
      moreover have "wire_of ?new = take 0 (drop off buf)" by simp
      moreover have "a # env = [] @ a # env" by simp
      moreover have "length ?new = Suc (length ([]::send_res list))" by simp
      moreover have "hard a \<or> 0 = length buf - off" using off by simp
      ultimately show ?thesis by (metis empty_iff list.set(1))
    qed
  next
    case (SendErr e)
    let ?be1 = "emit (Call_send (sock be) (drop off buf) (-1)) be"
    show ?thesis
    proof (cases "e = EAGAIN \<or> e = EINTR")
      case True
      have step: "tcp_send_loop env buf off sent ?be1 = Some (r, be')"
        using Cons.prems(1) SendErr True by (auto simp add: Let_def)
      have "Sent 0 \<notin> set env" "off \<le> length buf" using Cons.prems by auto
      from Cons.IH[OF step this]
      obtain d new used stop rest where
        h: "r = sent + int d" "d \<le> length buf - off"
           "calls be' = calls ?be1 @ new" "wire_of new = take d (drop off buf)"
           "env = used @ stop # rest" "length new = Suc (length used)"
           "\<forall>a \<in> set used. \<not> hard a" "hard stop \<or> d = length buf - off"
        by blast
      let ?new = "Call_send (sock be) (drop off buf) (-1) # new"
      have "calls be' = calls be @ ?new" using h by (simp add: emit_def)
      moreover have "wire_of ?new = take d (drop off buf)" using h by simp
      moreover have "a # env = (a # used) @ stop # rest" using h by simp
      moreover have "length ?new = Suc (length (a # used))" using h by simp
      moreover have "\<forall>x \<in> set (a # used). \<not> hard x"
        using h SendErr True by (auto simp add: hard_def)
      ultimately show ?thesis using h(1,2,8) by blast
    next
      case False
      have res: "r = sent" "be' = ?be1"
        using Cons.prems(1) SendErr False by (simp_all add: Let_def)
      let ?new = "[Call_send (sock be) (drop off buf) (-1)]"
      have "r = sent + int 0" using res by simp
      moreover have "(0::nat) \<le> length buf - off" by simp
      moreover have "calls be' = calls be @ ?new" using res by (simp add: emit_def)
      moreover have "wire_of ?new = take 0 (drop off buf)" by simp
      moreover have "a # env = [] @ a # env" by simp
      moreover have "length ?new = Suc (length ([]::send_res list))" by simp
      moreover have "hard a" using SendErr False by (simp add: hard_def)
      ultimately show ?thesis by (metis empty_iff list.set(1))
    qed
  qed
qed

lemma tcp_send_loop_fst_indep:
  "map_option fst (tcp_send_loop env buf off sent be)
     = map_option fst (tcp_send_loop env buf off sent be2)"
proof (induction env arbitrary: off sent be be2)
  case Nil show ?case by simp
next
  case (Cons a env)
  show ?case by (cases a) (auto simp add: Let_def intro: Cons.IH)
qed

lemma tcp_send_loop_retry:
  "map_option fst (tcp_send_loop env buf off sent be)
     = map_option fst (tcp_send_loop (filter (\<lambda>a. \<not> transient a) env) buf off sent be)"
proof (induction env arbitrary: off sent be)
  case Nil show ?case by simp
next
  case (Cons a env)
  show ?case
  proof (cases "transient a")
    case True
    then have "map_option fst (tcp_send_loop (a # env) buf off sent be)
        = map_option fst (tcp_send_loop env buf off sent (emit (Call_send (sock be) (drop off buf) (-1)) be))"
      by (auto simp add: transient_def Let_def)
    also have "\<dots> = map_option fst (tcp_send_loop env buf off sent be)"
      by (rule tcp_send_loop_fst_indep)
    finally show ?thesis using True Cons.IH by simp
  next
    case False
    then show ?thesis
      by (cases a) (auto simp add: transient_def Let_def Cons.IH)
  qed
qed

lemma tcp_send_loop_returns:
  "list_ex hard env \<Longrightarrow> tcp_send_loop env buf off sent be \<noteq> None"
proof (induction env arbitrary: off sent be)
  case Nil then show ?case by simp
next
  case (Cons a env)
  show ?case
  proof (cases "hard a")
    case True
    then obtain e where "a = SendErr e" "e \<noteq> EAGAIN" "e \<noteq> EINTR"
      by (cases a) (auto simp add: hard_def)
    then show ?thesis by (simp add: Let_def)
  next
    case False
    with Cons.prems have "list_ex hard env" by simp
    from Cons.IH[OF this] show ?thesis by (cases a) (auto simp add: Let_def)
  qed
qed


lemma tcp_send_loop_all_taken:
  assumes "0 \<notin> set ks" and "k \<noteq> 0" and "off \<le> length buf"
    and "length buf - off \<le> sum_list ks"
  shows "map_option fst (tcp_send_loop (map Sent ks @ Sent k # rest) buf off sent be)
           = Some (sent + int (length buf - off))"
  using assms
proof (induction ks arbitrary: off sent be)
  case Nil
  then show ?case by (simp add: Let_def)
next
  case (Cons k1 ks)
  show ?case
  proof (cases "off < length buf")
    case False
    with Cons.prems show ?thesis by (simp add: Let_def)
  next
    case True
    define m where "m = min k1 (length buf - off)"
    have m: "0 < m" "m \<le> length buf - off" "length buf - (off + m) \<le> sum_list ks"
      using True Cons.prems by (auto simp add: m_def min_def)
    have "map_option fst (tcp_send_loop (map Sent (k1 # ks) @ Sent k # rest) buf off sent be)
        = map_option fst (tcp_send_loop (map Sent ks @ Sent k # rest) buf (off + m)
            (sent + int m) (emit (Call_send (sock be) (drop off buf) (int m)) be))"
      using m(1) by (simp add: m_def Let_def)
    also have "\<dots> = Some (sent + int m + int (length buf - (off + m)))"
      using Cons.prems m by (intro Cons.IH) auto
    also have "\<dots> = Some (sent + int (length buf - off))" using m by simp
    finally show ?thesis .
  qed
qed

text \<open>
  C6. \<^verbatim>\<open>bufferev_write\<close> on a tcp connection, for any answers of the socket.
  \<^item> Failures with \<^verbatim>\<open>EAGAIN\<close> or \<^verbatim>\<open>EINTR\<close> are retried and change nothing: the value
    returned is the one returned with these answers left out.
  \<^item> If some answer is a hard error, the call returns.
  \<^item> If the socket, transient failures apart, takes at least one byte at each call until
    it has been offered the whole payload, the call returns the length of the payload.
  \<^item> Whenever the call returns, on a socket that never answers 0 to a request for at least
    one byte, the value returned is the number \<open>d\<close> of bytes the socket took, these bytes
    are the first \<open>d\<close> bytes of the payload in order, no answer before the last one used was
    a hard error, and the last one was a hard error unless the whole payload was taken.
\<close>

theorem C6_tcp_write:
  assumes "proto be = network_proto_tcp"
  shows "map_option fst (bufferev_write answers be buf)
           = map_option fst (bufferev_write (filter (\<lambda>a. \<not> transient a) answers) be buf)
         \<and> (list_ex hard answers \<longrightarrow> bufferev_write answers be buf \<noteq> None)
         \<and> (\<forall>ks k rest.
               filter (\<lambda>a. \<not> transient a) answers = map Sent ks @ Sent k # rest
               \<and> 0 \<notin> set ks \<and> k \<noteq> 0 \<and> length buf \<le> sum_list ks
               \<longrightarrow> map_option fst (bufferev_write answers be buf) = Some (int (length buf)))
         \<and> (\<forall>r be'.
               bufferev_write answers be buf = Some (r, be') \<and> Sent 0 \<notin> set answers
               \<longrightarrow> (\<exists>d new used stop rest.
                      r = int d \<and> d \<le> length buf
                      \<and> calls be' = calls be @ new \<and> wire_of new = take d buf
                      \<and> answers = used @ stop # rest \<and> length new = Suc (length used)
                      \<and> (\<forall>a \<in> set used. \<not> hard a)
                      \<and> (hard stop \<or> d = length buf)))"
proof (intro conjI allI impI)
  show "map_option fst (bufferev_write answers be buf)
           = map_option fst (bufferev_write (filter (\<lambda>a. \<not> transient a) answers) be buf)"
    using assms tcp_send_loop_retry[of answers buf 0 0 be] by (simp add: bufferev_write_def)
next
  assume "list_ex hard answers"
  then show "bufferev_write answers be buf \<noteq> None"
    using assms tcp_send_loop_returns[of answers buf 0 0 be] by (simp add: bufferev_write_def)
next
  fix ks k rest
  assume a: "filter (\<lambda>a. \<not> transient a) answers = map Sent ks @ Sent k # rest
               \<and> 0 \<notin> set ks \<and> k \<noteq> 0 \<and> length buf \<le> sum_list ks"
  have "map_option fst (tcp_send_loop answers buf 0 0 be)
          = map_option fst (tcp_send_loop (map Sent ks @ Sent k # rest) buf 0 0 be)"
    using a tcp_send_loop_retry[of answers buf 0 0 be] by simp
  also have "\<dots> = Some (0 + int (length buf - 0))"
    using a by (intro tcp_send_loop_all_taken) auto
  finally show "map_option fst (bufferev_write answers be buf) = Some (int (length buf))"
    using assms by (simp add: bufferev_write_def)
next
  fix r be'
  assume a: "bufferev_write answers be buf = Some (r, be') \<and> Sent 0 \<notin> set answers"
  then have "tcp_send_loop answers buf 0 0 be = Some (r, be')"
    using assms by (simp add: bufferev_write_def)
  from tcp_send_loop_sound[OF this] a
  show "\<exists>d new used stop rest.
                      r = int d \<and> d \<le> length buf
                      \<and> calls be' = calls be @ new \<and> wire_of new = take d buf
                      \<and> answers = used @ stop # rest \<and> length new = Suc (length used)
                      \<and> (\<forall>a \<in> set used. \<not> hard a)
                      \<and> (hard stop \<or> d = length buf)"
    by simp
qed

text \<open>
  Five bytes, taken as two and three with two transient failures in between; and five
  bytes of which two are taken before a hard error (error number 32).
\<close>

theorem C6_tcp_write_witness:
  "map_option fst
     (bufferev_write [Sent 2, SendErr EAGAIN, Sent 7, SendErr EINTR, Sent 1]
        (zeroed\<lparr>proto := network_proto_tcp, sock := 5\<rparr>) [1, 2, 3, 4, 5]) = Some 5
   \<and> bufferev_write [Sent 2, SendErr EAGAIN, SendErr (EOTHER 32)]
        (zeroed\<lparr>proto := network_proto_tcp, sock := 5\<rparr>) [1, 2, 3, 4, 5]
       = Some (2, zeroed\<lparr>proto := network_proto_tcp, sock := 5,
                 calls := [Call_send 5 [1, 2, 3, 4, 5] 2, Call_send 5 [3, 4, 5] (-1),
                           Call_send 5 [3, 4, 5] (-1)]\<rparr>)"
  using C6_tcp_write [of "zeroed\<lparr>proto := network_proto_tcp, sock := 5\<rparr>"
      "[Sent 2, SendErr EAGAIN, Sent 7, SendErr EINTR, Sent 1]" "[1, 2, 3, 4, 5]"]
  by (simp add: bufferev_write_def zeroed_def emit_def Let_def)

text \<open>
  C7. \<^verbatim>\<open>bufferev_write\<close> on a tls connection returns the length of the payload and
  changes nothing but \<^verbatim>\<open>tx_queue\<close>, which has the payload appended: no call leaves the
  module, so nothing is sent; the queue is longer by the length of the payload; the
  descriptor, \<^verbatim>\<open>rx_queue\<close> and \<^verbatim>\<open>connected\<close> are as before.
\<close>

theorem C7_tls_write:
  assumes "proto be = network_proto_tls"
  shows "bufferev_write answers be buf
           = Some (int (length buf), be\<lparr>tx_queue := tx_queue be @ buf\<rparr>)
         \<and> calls (be\<lparr>tx_queue := tx_queue be @ buf\<rparr>) = calls be
         \<and> buffer_queue_len (tx_queue (be\<lparr>tx_queue := tx_queue be @ buf\<rparr>))
             = buffer_queue_len (tx_queue be) + length buf
         \<and> sock (be\<lparr>tx_queue := tx_queue be @ buf\<rparr>) = sock be
         \<and> rx_queue (be\<lparr>tx_queue := tx_queue be @ buf\<rparr>) = rx_queue be
         \<and> connected (be\<lparr>tx_queue := tx_queue be @ buf\<rparr>) = connected be"
  using assms by (simp add: bufferev_write_def buffer_queue_add_def buffer_queue_len_def)

text \<open>A payload of 100 bytes: the value returned is 100.\<close>

theorem C7_tls_write_witness:
  "map_option fst (bufferev_write [] (zeroed\<lparr>proto := network_proto_tls\<rparr>) (replicate 100 0))
     = Some 100"
  using C7_tls_write [of "zeroed\<lparr>proto := network_proto_tls\<rparr>" "[]" "replicate 100 0"]
  by (simp add: zeroed_def)

section \<open>Properties of reading\<close>

lemma read_cbs_of_append: "read_cbs_of (xs @ ys) = read_cbs_of xs @ read_cbs_of ys"
  by (induction xs rule: read_cbs_of.induct) simp_all

lemma events_of_append: "events_of (xs @ ys) = events_of xs @ events_of ys"
  by (induction xs rule: events_of.induct) simp_all

lemma recvs_of_append: "recvs_of (xs @ ys) = recvs_of xs @ recvs_of ys"
  by (induction xs rule: recvs_of.induct) simp_all

lemma chunk_seen_append: "rx_queue s = q @ c \<Longrightarrow> chunk_seen c s"
  by (simp add: chunk_seen_def bufferev_bytes_available_def bufferev_peek_def
        buffer_queue_len_def buffer_queue_copy_def)

lemma on_read_loop_chunk:
  "c \<noteq> [] \<Longrightarrow>
   on_read_loop (Recv c # rs) n be
     = on_read_loop rs (n + int (min (length c) 4096)) (read_step c be)"
  by (simp add: read_step_def Let_def buffer_queue_add_def emit_def)

lemma on_read_loop_stop:
  "recv_rc stop 4096 \<le> 0 \<Longrightarrow>
   on_read_loop (stop # rs) n be = Some (n, emit (Call_recv (sock be) (recv_rc stop 4096)) be)"
  by (simp add: Let_def)

lemma read_step_frame:
  "read_step c be =
     be\<lparr>rx_queue := rx_queue (read_step c be),
        calls := calls be @ Call_recv (sock be) (int (min (length c) 4096))
                   # (case read_cb be of None \<Rightarrow> []
                      | Some h \<Rightarrow> [Call_read_cb (rx_queue be @ take 4096 c)])\<rparr>"
  by (simp add: read_step_def call_read_cb_def emit_def bufferev_read_def
        buffer_queue_remove_def split: option.split)

lemma read_step_no_cb:
  "read_cb be = None \<Longrightarrow> rx_queue (read_step c be) = rx_queue be @ take 4096 c"
  by (simp add: read_step_def call_read_cb_def emit_def)

lemma on_read_loop_chunks:
  assumes "\<forall>c \<in> set chunks. c \<noteq> []" and "recv_rc stop 4096 \<le> 0"
  shows "\<exists>q new.
           on_read_loop (map Recv chunks @ stop # rest) n be
             = Some (n + int (sum_list (map (\<lambda>c. min (length c) 4096) chunks)),
                     be\<lparr>rx_queue := q, calls := calls be @ new\<rparr>)
           \<and> recvs_of new
               = map (\<lambda>c. int (min (length c) 4096)) chunks @ [recv_rc stop 4096]
           \<and> events_of new = [] \<and> Call_ev_io_stop \<notin> set new
           \<and> list_all2 (\<lambda>c q. \<forall>s. rx_queue s = q \<longrightarrow> chunk_seen c s)
                (if read_cb be = None then [] else map (take 4096) chunks) (read_cbs_of new)
           \<and> (read_cb be = None \<longrightarrow> q = rx_queue be @ concat (map (take 4096) chunks))"
  using assms(1)
proof (induction chunks arbitrary: n be)
  case Nil
  show ?case
  proof (intro exI conjI)
    show "on_read_loop (map Recv [] @ stop # rest) n be
          = Some (n + int (sum_list (map (\<lambda>c. min (length c) 4096) [])),
                  be\<lparr>rx_queue := rx_queue be,
                     calls := calls be @ [Call_recv (sock be) (recv_rc stop 4096)]\<rparr>)"
      using assms(2) by (simp add: on_read_loop_stop emit_def)
  qed simp_all
next
  case (Cons c chunks)
  then have c: "c \<noteq> []" and cs: "\<forall>c \<in> set chunks. c \<noteq> []" by simp_all
  let ?first = "Call_recv (sock be) (int (min (length c) 4096))
                   # (case read_cb be of None \<Rightarrow> []
                      | Some h \<Rightarrow> [Call_read_cb (rx_queue be @ take 4096 c)])"
  let ?s = "read_step c be"
  have s: "?s = be\<lparr>rx_queue := rx_queue ?s, calls := calls be @ ?first\<rparr>"
    by (rule read_step_frame)
  let ?n1 = "n + int (min (length c) 4096)"
  from Cons.IH[OF cs, of ?n1 ?s]
  obtain q new where
    h: "on_read_loop (map Recv chunks @ stop # rest) ?n1 ?s
          = Some (?n1 + int (sum_list (map (\<lambda>c. min (length c) 4096) chunks)),
                  ?s\<lparr>rx_queue := q, calls := calls ?s @ new\<rparr>)"
       "recvs_of new = map (\<lambda>c. int (min (length c) 4096)) chunks @ [recv_rc stop 4096]"
       "events_of new = []"
       "Call_ev_io_stop \<notin> set new"
       "list_all2 (\<lambda>c q. \<forall>s. rx_queue s = q \<longrightarrow> chunk_seen c s)
          (if read_cb ?s = None then [] else map (take 4096) chunks)
          (read_cbs_of new)"
       "read_cb ?s = None \<longrightarrow> q = rx_queue ?s @ concat (map (take 4096) chunks)"
    by (elim exE conjE) (rule that)
  have rcb: "read_cb ?s = read_cb be" by (subst s) simp
  have cl: "calls ?s = calls be @ ?first" by (subst s) simp
  have upd: "?s\<lparr>rx_queue := q, calls := calls ?s @ new\<rparr>
               = be\<lparr>rx_queue := q, calls := calls be @ (?first @ new)\<rparr>"
    by (subst s, subst cl) simp
  show ?case
  proof (intro exI conjI)
    show "on_read_loop (map Recv (c # chunks) @ stop # rest) n be
          = Some (n + int (sum_list (map (\<lambda>c. min (length c) 4096) (c # chunks))),
                  be\<lparr>rx_queue := q, calls := calls be @ (?first @ new)\<rparr>)"
    proof -
      have "on_read_loop (map Recv (c # chunks) @ stop # rest) n be
              = on_read_loop (map Recv chunks @ stop # rest) ?n1 ?s"
        using c by (simp add: on_read_loop_chunk del: on_read_loop.simps)
      also note h(1)
      finally show ?thesis by (simp add: upd del: on_read_loop.simps)
    qed
    show "recvs_of (?first @ new)
        = map (\<lambda>c. int (min (length c) 4096)) (c # chunks) @ [recv_rc stop 4096]"
      using h(2) by (simp split: option.split)
    show "events_of (?first @ new) = []"
      using h(3) by (simp split: option.split)
    show "Call_ev_io_stop \<notin> set (?first @ new)"
      using h(4) by (simp split: option.split)
    show "list_all2 (\<lambda>c q. \<forall>s. rx_queue s = q \<longrightarrow> chunk_seen c s)
        (if read_cb be = None then [] else map (take 4096) (c # chunks))
        (read_cbs_of (?first @ new))"
      using h(5) rcb by (auto simp add: chunk_seen_append split: option.split)
    show "read_cb be = None \<longrightarrow> q = rx_queue be @ concat (map (take 4096) (c # chunks))"
      using h(6) rcb by (simp add: read_step_no_cb)
  qed
qed


lemma sum_chunks_pos:
  "\<forall>c \<in> set chunks. c \<noteq> [] \<Longrightarrow>
   (int (sum_list (map (\<lambda>c. min (length c) 4096) chunks)) \<le> 0) = (chunks = [])"
proof (cases chunks)
  case Nil
  then show ?thesis by simp
next
  case (Cons a list)
  assume "\<forall>c \<in> set chunks. c \<noteq> []"
  with Cons have "0 < length a" by simp
  then have "1 \<le> min (length a) 4096" by arith
  then have "\<not> (int (min (length a) 4096)
                + int (sum_list (map (\<lambda>c. min (length c) 4096) list)) \<le> 0)"
    by linarith
  then show ?thesis unfolding Cons by simp
qed

lemma on_read_of_loop:
  "on_read_loop answers 0 be = Some (t, be1) \<Longrightarrow>
   on_read answers be
     = Some (if t \<le> 0 then call_event_cb {BEV_EOF} (ev_io_stop be1) else be1)"
  by (simp add: on_read_def)

lemma on_read_result:
  assumes "\<forall>c \<in> set chunks. c \<noteq> []" and "recv_rc stop 4096 \<le> 0"
  shows "\<exists>be' new.
           on_read (map Recv chunks @ stop # rest) be = Some be'
           \<and> calls be' = calls be @ new
           \<and> recvs_of new
               = map (\<lambda>c. int (min (length c) 4096)) chunks @ [recv_rc stop 4096]
           \<and> list_all2 (\<lambda>c q. \<forall>s. rx_queue s = q \<longrightarrow> chunk_seen c s)
                (if read_cb be = None then [] else map (take 4096) chunks) (read_cbs_of new)
           \<and> (read_cb be = None \<longrightarrow> rx_queue be' = rx_queue be @ concat (map (take 4096) chunks))
           \<and> events_of new = (if chunks = [] \<and> event_cb be \<noteq> None then [{BEV_EOF}] else [])
           \<and> data_ev_active be' = (chunks \<noteq> [] \<and> data_ev_active be)
           \<and> (Call_ev_io_stop \<in> set new) = (chunks = [])"
proof -
  let ?total = "int (sum_list (map (\<lambda>c. min (length c) 4096) chunks))"
  from on_read_loop_chunks[OF assms, of rest 0 be]
  obtain q new where
    h: "on_read_loop (map Recv chunks @ stop # rest) 0 be
          = Some (0 + ?total, be\<lparr>rx_queue := q, calls := calls be @ new\<rparr>)"
       "recvs_of new = map (\<lambda>c. int (min (length c) 4096)) chunks @ [recv_rc stop 4096]"
       "events_of new = []"
       "Call_ev_io_stop \<notin> set new"
       "list_all2 (\<lambda>c q. \<forall>s. rx_queue s = q \<longrightarrow> chunk_seen c s)
          (if read_cb be = None then [] else map (take 4096) chunks) (read_cbs_of new)"
       "read_cb be = None \<longrightarrow> q = rx_queue be @ concat (map (take 4096) chunks)"
    by (elim exE conjE) (rule that)
  let ?be1 = "be\<lparr>rx_queue := q, calls := calls be @ new\<rparr>"
  have pos: "(?total \<le> 0) = (chunks = [])" using assms(1) by (rule sum_chunks_pos)
  show ?thesis
  proof (cases "chunks = []")
    case True
    let ?tail = "Call_ev_io_stop # (case event_cb be of None \<Rightarrow> [] | Some f \<Rightarrow> [Call_event_cb {BEV_EOF}])"
    from pos True have np: "0 + ?total \<le> 0" by simp
    have r: "on_read (map Recv chunks @ stop # rest) be
               = Some (call_event_cb {BEV_EOF} (ev_io_stop ?be1))"
      using on_read_of_loop[OF h(1)] by (simp only: np if_True)
    have c: "calls (call_event_cb {BEV_EOF} (ev_io_stop ?be1)) = calls be @ (new @ ?tail)"
      by (simp add: call_event_cb_def ev_io_stop_def emit_def split: option.split)
    show ?thesis
    proof (intro exI conjI)
      show "on_read (map Recv chunks @ stop # rest) be
               = Some (call_event_cb {BEV_EOF} (ev_io_stop ?be1))" by (rule r)
      show "calls (call_event_cb {BEV_EOF} (ev_io_stop ?be1)) = calls be @ (new @ ?tail)"
        by (rule c)
      show "recvs_of (new @ ?tail)
              = map (\<lambda>c. int (min (length c) 4096)) chunks @ [recv_rc stop 4096]"
        using h(2) by (simp add: recvs_of_append split: option.split)
      show "list_all2 (\<lambda>c q. \<forall>s. rx_queue s = q \<longrightarrow> chunk_seen c s)
              (if read_cb be = None then [] else map (take 4096) chunks)
              (read_cbs_of (new @ ?tail))"
        using h(5) by (auto simp add: read_cbs_of_append split: option.split)
      show "read_cb be = None \<longrightarrow>
              rx_queue (call_event_cb {BEV_EOF} (ev_io_stop ?be1))
                = rx_queue be @ concat (map (take 4096) chunks)"
        using h(6) by (simp add: call_event_cb_def ev_io_stop_def emit_def split: option.split)
      show "events_of (new @ ?tail)
              = (if chunks = [] \<and> event_cb be \<noteq> None then [{BEV_EOF}] else [])"
        using h(3) True by (auto simp add: events_of_append split: option.split)
      show "data_ev_active (call_event_cb {BEV_EOF} (ev_io_stop ?be1))
              = (chunks \<noteq> [] \<and> data_ev_active be)"
        using True by (simp add: call_event_cb_def ev_io_stop_def emit_def split: option.split)
      show "(Call_ev_io_stop \<in> set (new @ ?tail)) = (chunks = [])"
        using True by simp
    qed
  next
    case False
    from pos False have np: "\<not> (0 + ?total \<le> 0)" by simp
    have r: "on_read (map Recv chunks @ stop # rest) be = Some ?be1"
      using on_read_of_loop[OF h(1)] by (simp only: np if_False)
    show ?thesis
    proof (intro exI conjI)
      show "on_read (map Recv chunks @ stop # rest) be = Some ?be1" by (rule r)
      show "calls ?be1 = calls be @ new" by simp
      show "recvs_of new = map (\<lambda>c. int (min (length c) 4096)) chunks @ [recv_rc stop 4096]"
        by (rule h(2))
      show "list_all2 (\<lambda>c q. \<forall>s. rx_queue s = q \<longrightarrow> chunk_seen c s)
              (if read_cb be = None then [] else map (take 4096) chunks) (read_cbs_of new)"
        by (rule h(5))
      show "read_cb be = None \<longrightarrow> rx_queue ?be1 = rx_queue be @ concat (map (take 4096) chunks)"
        using h(6) by simp
      show "events_of new = (if chunks = [] \<and> event_cb be \<noteq> None then [{BEV_EOF}] else [])"
        using h(3) False by simp
      show "data_ev_active ?be1 = (chunks \<noteq> [] \<and> data_ev_active be)"
        using False by simp
      show "(Call_ev_io_stop \<in> set new) = (chunks = [])"
        using h(4) False by simp
    qed
  qed
qed

text \<open>
  C8. One call of \<^verbatim>\<open>on_read\<close>, when the socket answers with the chunks \<open>chunks\<close>
  (each with at least one byte) and then with \<open>stop\<close>, an answer without bytes: the end
  of the stream (zero) or a failure. The call returns. It calls \<^verbatim>\<open>recv\<close> once per
  chunk and once more, so the loop ends at the first answer without bytes and the answers
  after it are not asked for; it calls \<^verbatim>\<open>read_cb\<close>, if there is one, once per chunk;
  without a handler the chunks, cut to the 4096 bytes of the buffer, are all appended to
  \<^verbatim>\<open>rx_queue\<close>. If no byte was received the watch is stopped and, if there is an
  event handler, exactly one event is delivered, Eof; otherwise the watch is left as it
  was and no event is delivered.
\<close>

theorem C8_on_read_per_chunk_and_eof:
  assumes "\<forall>c \<in> set chunks. c \<noteq> []" and "recv_rc stop 4096 \<le> 0"
  shows "\<exists>be' new.
           on_read (map Recv chunks @ stop # rest) be = Some be'
           \<and> calls be' = calls be @ new
           \<and> recvs_of new
               = map (\<lambda>c. int (min (length c) 4096)) chunks @ [recv_rc stop 4096]
           \<and> length (read_cbs_of new) = (if read_cb be = None then 0 else length chunks)
           \<and> (read_cb be = None \<longrightarrow> rx_queue be' = rx_queue be @ concat (map (take 4096) chunks))
           \<and> events_of new = (if chunks = [] \<and> event_cb be \<noteq> None then [{BEV_EOF}] else [])
           \<and> data_ev_active be' = (chunks \<noteq> [] \<and> data_ev_active be)
           \<and> (Call_ev_io_stop \<in> set new) = (chunks = [])"
proof -
  from on_read_result[OF assms, of rest be] obtain be' new where
    h: "on_read (map Recv chunks @ stop # rest) be = Some be'"
       "calls be' = calls be @ new"
       "recvs_of new = map (\<lambda>c. int (min (length c) 4096)) chunks @ [recv_rc stop 4096]"
       "list_all2 (\<lambda>c q. \<forall>s. rx_queue s = q \<longrightarrow> chunk_seen c s)
          (if read_cb be = None then [] else map (take 4096) chunks) (read_cbs_of new)"
       "read_cb be = None \<longrightarrow> rx_queue be' = rx_queue be @ concat (map (take 4096) chunks)"
       "events_of new = (if chunks = [] \<and> event_cb be \<noteq> None then [{BEV_EOF}] else [])"
       "data_ev_active be' = (chunks \<noteq> [] \<and> data_ev_active be)"
       "(Call_ev_io_stop \<in> set new) = (chunks = [])"
    by (elim exE conjE) (rule that)
  have "length (read_cbs_of new) = (if read_cb be = None then 0 else length chunks)"
    using list_all2_lengthD[OF h(4)] by (cases "read_cb be") auto
  with h(1,2,3,5,6,7,8) show ?thesis by (intro exI conjI)
qed

text \<open>
  Two chunks and then a failure with \<^verbatim>\<open>EAGAIN\<close>, on a connected descriptor 5 with both
  handlers installed: three calls of \<^verbatim>\<open>recv\<close>, two of the handler, no event. And an
  end of stream at once: the watch is stopped and Eof delivered.
\<close>

theorem C8_on_read_per_chunk_and_eof_witness:
  "map_option calls
     (on_read [Recv [1, 2], Recv [3], RecvErr EAGAIN, Recv [4]]
        (zeroed\<lparr>sock := 5, data_ev_active := True, data_ev_cb := Some H_on_read,
                read_cb := Some (\<lambda>q. 0), event_cb := Some 1\<rparr>))
     = Some [Call_recv 5 2, Call_read_cb [1, 2], Call_recv 5 1, Call_read_cb [1, 2, 3],
             Call_recv 5 (-1)]
   \<and> map_option calls
       (on_read [Recv [], Recv [4]]
          (zeroed\<lparr>sock := 5, data_ev_active := True, data_ev_cb := Some H_on_read,
                  read_cb := Some (\<lambda>q. 0), event_cb := Some 1\<rparr>))
       = Some [Call_recv 5 0, Call_ev_io_stop, Call_event_cb {BEV_EOF}]"
  using C8_on_read_per_chunk_and_eof
    [of "[[1, 2], [3]]" "RecvErr EAGAIN" "[Recv [4]]"
        "zeroed\<lparr>sock := 5, data_ev_active := True, data_ev_cb := Some H_on_read,
                read_cb := Some (\<lambda>q. 0), event_cb := Some 1\<rparr>"]
  by (simp add: on_read_def zeroed_def call_read_cb_def call_event_cb_def ev_io_stop_def
        emit_def bufferev_read_def buffer_queue_remove_def buffer_queue_add_def Let_def)

text \<open>
  C10. In one call of \<^verbatim>\<open>on_read\<close> on a connection with a data handler, with the
  socket's answers as in C8: the handler is called once per chunk, in order, and the queue
  each call finds ends with the chunk just received (cut to the 4096 bytes of the buffer),
  whatever the handler took off the queue in the calls before. So in any state with that
  queue \<^verbatim>\<open>bufferev_bytes_available\<close> counts the chunk's bytes and \<^verbatim>\<open>bufferev_peek\<close>
  returns them.
\<close>

theorem C10_chunk_queued_before_handler:
  assumes "\<forall>c \<in> set chunks. c \<noteq> []" and "recv_rc stop 4096 \<le> 0"
    and "read_cb be = Some h"
  shows "\<exists>be' new.
           on_read (map Recv chunks @ stop # rest) be = Some be'
           \<and> calls be' = calls be @ new
           \<and> list_all2 (\<lambda>c q. \<forall>s. rx_queue s = q \<longrightarrow> chunk_seen c s)
                (map (take 4096) chunks) (read_cbs_of new)"
proof -
  from on_read_result[OF assms(1,2), of rest be] obtain be' new where
    h: "on_read (map Recv chunks @ stop # rest) be = Some be'"
       "calls be' = calls be @ new"
       "list_all2 (\<lambda>c q. \<forall>s. rx_queue s = q \<longrightarrow> chunk_seen c s)
          (if read_cb be = None then [] else map (take 4096) chunks) (read_cbs_of new)"
    by (elim exE conjE) (rule that)
  from h(3) assms(3)
  have "list_all2 (\<lambda>c q. \<forall>s. rx_queue s = q \<longrightarrow> chunk_seen c s)
          (map (take 4096) chunks) (read_cbs_of new)" by simp
  with h(1,2) show ?thesis by (intro exI conjI)
qed

text \<open>
  A handler that takes two bytes at each call, on a queue that already holds the byte 9:
  the first call finds 9, 1, 2 and the second finds 2, 3 (the chunk 3 after what was left).
\<close>

theorem C10_chunk_queued_before_handler_witness:
  "map_option (\<lambda>be'. (read_cbs_of (calls be'), rx_queue be'))
     (on_read [Recv [1, 2], Recv [3], RecvErr EAGAIN]
        (zeroed\<lparr>sock := 5, rx_queue := [9], read_cb := Some (\<lambda>q. 2)\<rparr>))
     = Some ([[9, 1, 2], [2, 3]], [])
   \<and> chunk_seen [1, 2] (zeroed\<lparr>rx_queue := [9, 1, 2]\<rparr>)
   \<and> chunk_seen [3] (zeroed\<lparr>rx_queue := [2, 3]\<rparr>)"
  using C10_chunk_queued_before_handler
    [of "[[1, 2], [3]]" "RecvErr EAGAIN" "zeroed\<lparr>sock := 5, rx_queue := [9], read_cb := Some (\<lambda>q. 2)\<rparr>"
        "\<lambda>q. 2" "[]"]
  by (simp add: on_read_def zeroed_def call_read_cb_def call_event_cb_def ev_io_stop_def
        emit_def bufferev_read_def buffer_queue_remove_def buffer_queue_add_def Let_def
        chunk_seen_def bufferev_bytes_available_def bufferev_peek_def buffer_queue_len_def
        buffer_queue_copy_def)

section \<open>Properties of the connect attempt\<close>

lemma on_read_loop_any:
  "on_read_loop answers n be = Some (t, be') \<Longrightarrow>
   \<exists>q new. be' = be\<lparr>rx_queue := q, calls := calls be @ new\<rparr> \<and> events_of new = []"
proof (induction answers arbitrary: n be)
  case Nil
  then show ?case by simp
next
  case (Cons a answers)
  show ?case
  proof (cases "recv_rc a 4096 > 0")
    case False
    with Cons.prems have "be' = be\<lparr>rx_queue := rx_queue be,
        calls := calls be @ [Call_recv (sock be) (recv_rc a 4096)]\<rparr>"
      by (simp add: Let_def emit_def)
    moreover have "events_of [Call_recv (sock be) (recv_rc a 4096)] = []" by simp
    ultimately show ?thesis by (intro exI conjI)
  next
    case True
    then obtain c where a: "a = Recv c" and c: "c \<noteq> []" by (cases a) auto
    let ?s = "read_step c be"
    let ?first = "Call_recv (sock be) (int (min (length c) 4096))
                   # (case read_cb be of None \<Rightarrow> []
                      | Some h \<Rightarrow> [Call_read_cb (rx_queue be @ take 4096 c)])"
    have s: "?s = be\<lparr>rx_queue := rx_queue ?s, calls := calls be @ ?first\<rparr>"
      by (rule read_step_frame)
    have step: "on_read_loop answers (n + int (min (length c) 4096)) ?s = Some (t, be')"
      using Cons.prems a c by (simp add: read_step_def Let_def buffer_queue_add_def emit_def)
    from Cons.IH[OF step] obtain q new where
      h: "be' = ?s\<lparr>rx_queue := q, calls := calls ?s @ new\<rparr>" "events_of new = []"
      by (elim exE conjE) (rule that)
    have cl: "calls ?s = calls be @ ?first" by (subst s) simp
    have "be' = be\<lparr>rx_queue := q, calls := calls be @ (?first @ new)\<rparr>"
      by (subst h(1), subst s, subst cl) simp
    moreover have "events_of (?first @ new) = []"
      using h(2) by (simp split: option.split)
    ultimately show ?thesis by (intro exI conjI)
  qed
qed

lemma on_read_quiet:
  assumes "on_read answers be = Some be'"
  shows "\<exists>new. calls be' = calls be @ new \<and> set (events_of new) \<subseteq> {{BEV_EOF}}
           \<and> connect_timer_active be' = connect_timer_active be
           \<and> data_ev_cb be' = data_ev_cb be
           \<and> (data_ev_active be' \<longrightarrow> data_ev_active be)"
proof -
  from assms obtain t be1 where l: "on_read_loop answers 0 be = Some (t, be1)"
    and r: "be' = (if t \<le> 0 then call_event_cb {BEV_EOF} (ev_io_stop be1) else be1)"
    by (auto simp add: on_read_def split: option.splits)
  from on_read_loop_any[OF l] obtain q new where
    h: "be1 = be\<lparr>rx_queue := q, calls := calls be @ new\<rparr>" "events_of new = []"
    by (elim exE conjE) (rule that)
  show ?thesis
  proof (cases "t \<le> 0")
    case False
    with r h show ?thesis by simp
  next
    case True
    let ?tail = "Call_ev_io_stop # (case event_cb be of None \<Rightarrow> [] | Some f \<Rightarrow> [Call_event_cb {BEV_EOF}])"
    have "calls be' = calls be @ (new @ ?tail)"
      using r True h(1) by (simp add: call_event_cb_def ev_io_stop_def emit_def split: option.split)
    moreover have "set (events_of (new @ ?tail)) \<subseteq> {{BEV_EOF}}"
      using h(2) by (simp add: events_of_append split: option.split)
    moreover have "connect_timer_active be' = connect_timer_active be"
      "data_ev_cb be' = data_ev_cb be" "data_ev_active be' \<longrightarrow> data_ev_active be"
      using r True h(1) by (simp_all add: call_event_cb_def ev_io_stop_def emit_def split: option.split)
    ultimately show ?thesis by (intro exI conjI)
  qed
qed

lemma run_quiet:
  assumes "run evs be = Some be'" and "\<not> connect_timer_active be"
    and "data_ev_active be \<longrightarrow> data_ev_cb be = Some H_on_read"
  shows "\<exists>new. calls be' = calls be @ new \<and> set (events_of new) \<subseteq> {{BEV_EOF}}"
  using assms
proof (induction evs arbitrary: be)
  case Nil
  then have "calls be' = calls be @ []" by simp
  moreover have "set (events_of []) \<subseteq> {{BEV_EOF}}" by simp
  ultimately show ?case by (intro exI conjI)
next
  case (Cons ev evs)
  from Cons.prems(1) obtain be1 where d: "dispatch ev be = Some be1" and r: "run evs be1 = Some be'"
    by (auto split: option.splits)
  have "\<exists>new. calls be1 = calls be @ new \<and> set (events_of new) \<subseteq> {{BEV_EOF}}
           \<and> connect_timer_active be1 = connect_timer_active be
           \<and> data_ev_cb be1 = data_ev_cb be
           \<and> (data_ev_active be1 \<longrightarrow> data_ev_active be)"
  proof (cases "\<exists>st answers. ev = IoReady st answers \<and> data_ev_active be")
    case True
    then obtain st answers where ev: "ev = IoReady st answers" and act: "data_ev_active be" by blast
    with Cons.prems(3) d have "on_read answers be = Some be1" by (simp add: dispatch_def)
    then show ?thesis by (rule on_read_quiet)
  next
    case False
    with d Cons.prems(2) have "be1 = be"
      by (cases ev) (auto simp add: dispatch_def split: if_splits)
    then have "calls be1 = calls be @ []" "set (events_of []) \<subseteq> {{BEV_EOF}}"
      "connect_timer_active be1 = connect_timer_active be"
      "data_ev_cb be1 = data_ev_cb be" "data_ev_active be1 \<longrightarrow> data_ev_active be" by simp_all
    then show ?thesis by (intro exI conjI)
  qed
  then obtain new1 where
    h1: "calls be1 = calls be @ new1" "set (events_of new1) \<subseteq> {{BEV_EOF}}"
        "connect_timer_active be1 = connect_timer_active be"
        "data_ev_cb be1 = data_ev_cb be" "data_ev_active be1 \<longrightarrow> data_ev_active be"
    by (elim exE conjE) (rule that)
  have q1: "\<not> connect_timer_active be1" "data_ev_active be1 \<longrightarrow> data_ev_cb be1 = Some H_on_read"
    using h1 Cons.prems(2,3) by auto
  from Cons.IH[OF r q1] obtain new2 where
    h2: "calls be' = calls be1 @ new2" "set (events_of new2) \<subseteq> {{BEV_EOF}}"
    by (elim exE conjE) (rule that)
  have "calls be' = calls be @ (new1 @ new2)" using h1(1) h2(1) by simp
  moreover have "set (events_of (new1 @ new2)) \<subseteq> {{BEV_EOF}}"
    using h1(2) h2(2) by (simp add: events_of_append)
  ultimately show ?case by (intro exI conjI)
qed


lemma connect_addrinfo_cases:
  assumes "\<not> connect_timer_active be" and "\<not> data_ev_active be" and "connected be = 0"
    and "event_cb be = Some f"
    and "bufferev_connect_addrinfo sock_res conn_res src dst timeout_s be = (rc, be1)"
  shows "\<exists>cs. calls be1 = calls be @ cs \<and> event_cb be1 = Some f \<and>
           ((rc = -1 \<and> events_of cs = [{BEV_ERROR}]
               \<and> \<not> connect_timer_active be1 \<and> \<not> data_ev_active be1)
            \<or> (rc = 0 \<and> events_of cs = [] \<and> connect_timer_active be1 \<and> data_ev_active be1
                \<and> data_ev_cb be1 = Some H_on_connect \<and> connected be1 = 0))"
proof (cases "sock_res < 0")
  case True
  with assms have "rc = -1" "be1 = be\<lparr>sock := sock_res,
      calls := calls be @ [Call_socket sock_res, Call_event_cb {BEV_ERROR}]\<rparr>"
    by (simp_all add: bufferev_connect_addrinfo_def lib_defs Let_def)
  then show ?thesis using assms(1-4)
    by (intro exI[of _ "[Call_socket sock_res, Call_event_cb {BEV_ERROR}]"]) simp
next
  case False
  let ?pre = "[Call_socket sock_res, Call_make_socket_nonblocking sock_res]
                @ (case src of None \<Rightarrow> [] | Some s \<Rightarrow> [Call_bind sock_res])
                @ [Call_connect sock_res]"
  show ?thesis
  proof (cases "conn_res = ConnOk \<or> conn_res = ConnErr EINPROGRESS")
    case True
    let ?cs = "?pre @ [Call_ev_io_start (Some H_on_connect) sock_res EV_WRITE,
                       Call_ev_timer_start timeout_s]"
    have "rc = 0" "calls be1 = calls be @ ?cs" "event_cb be1 = Some f"
      "connect_timer_active be1" "data_ev_active be1" "data_ev_cb be1 = Some H_on_connect"
      "connected be1 = 0"
      using assms \<open>\<not> sock_res < 0\<close> True
      by (auto simp add: bufferev_connect_addrinfo_def lib_defs Let_def split: option.splits)
    moreover have "events_of ?cs = []" by (simp add: events_of_append split: option.split)
    ultimately show ?thesis by (intro exI[of _ ?cs]) simp
  next
    case False
    let ?cs = "?pre @ [Call_close sock_res, Call_event_cb {BEV_ERROR}]"
    have "rc = -1" "calls be1 = calls be @ ?cs" "event_cb be1 = Some f"
      "\<not> connect_timer_active be1" "\<not> data_ev_active be1"
      using assms \<open>\<not> sock_res < 0\<close> False
      by (auto simp add: bufferev_connect_addrinfo_def lib_defs Let_def split: option.splits)
    moreover have "events_of ?cs = [{BEV_ERROR}]" by (simp add: events_of_append split: option.split)
    ultimately show ?thesis by (intro exI[of _ ?cs]) simp
  qed
qed

lemma first_event_settles:
  assumes "connect_timer_active be" and "data_ev_active be"
    and "data_ev_cb be = Some H_on_connect" and "connected be = 0" and "event_cb be = Some f"
    and "dispatch ev be = Some be'"
  shows "\<exists>cs outcome. calls be' = calls be @ cs \<and> events_of cs = [outcome]
           \<and> outcome \<in> {{BEV_CONNECTED}, {BEV_ERROR}, {BEV_ERROR, BEV_TIMEOUT}}
           \<and> \<not> connect_timer_active be'
           \<and> (data_ev_active be' \<longrightarrow> data_ev_cb be' = Some H_on_read)"
proof (cases ev)
  case TimerFire
  let ?cs = "Call_ev_timer_stop # (if 0 \<le> sock be then [Call_close (sock be)] else [])
               @ [Call_ev_io_stop, Call_event_cb {BEV_ERROR, BEV_TIMEOUT}]"
  have "be' = on_connect_timeout be" using assms TimerFire by (simp add: dispatch_def)
  then have "calls be' = calls be @ ?cs" "\<not> connect_timer_active be'" "\<not> data_ev_active be'"
    using assms by (simp_all add: on_connect_timeout_def lib_defs Let_def)
  moreover have "events_of ?cs = [{BEV_ERROR, BEV_TIMEOUT}]" by simp
  ultimately show ?thesis
    by (intro exI[of _ ?cs] exI[of _ "{BEV_ERROR, BEV_TIMEOUT}"]) simp
next
  case (IoReady st answers)
  then have b: "be' = on_connect st be" using assms by (simp add: dispatch_def)
  show ?thesis
  proof (cases "st = 0")
    case True
    let ?cs = "[Call_ev_io_stop, Call_ev_timer_stop, Call_getsockopt (sock be),
                Call_event_cb {BEV_CONNECTED}, Call_ev_io_start (Some H_on_read) (sock be) EV_READ]"
    have "calls be' = calls be @ ?cs" "\<not> connect_timer_active be'"
      "data_ev_cb be' = Some H_on_read"
      using assms b True by (simp_all add: on_connect_def lib_defs Let_def)
    moreover have "events_of ?cs = [{BEV_CONNECTED}]" by simp
    ultimately show ?thesis
      by (intro exI[of _ ?cs] exI[of _ "{BEV_CONNECTED}"]) simp
  next
    case False
    let ?cs = "[Call_ev_io_stop, Call_ev_timer_stop, Call_getsockopt (sock be),
                Call_event_cb {BEV_ERROR}]"
    have "calls be' = calls be @ ?cs" "\<not> connect_timer_active be'" "\<not> data_ev_active be'"
      using assms b False by (simp_all add: on_connect_def lib_defs Let_def)
    moreover have "events_of ?cs = [{BEV_ERROR}]" by simp
    ultimately show ?thesis
      by (intro exI[of _ ?cs] exI[of _ "{BEV_ERROR}"]) simp
  qed
qed

lemma eofs_settle_nothing:
  assumes "set eofs \<subseteq> {{BEV_EOF}}"
  shows "filter settles eofs = [] \<and> \<not> list_ex (\<lambda>later. BEV_TIMEOUT \<in> later) eofs
         \<and> \<not> timeout_after_connected eofs"
  using assms by (induction eofs) (auto simp add: settles_def)

lemma one_outcome:
  assumes "outcome \<in> {{BEV_CONNECTED}, {BEV_ERROR}, {BEV_ERROR, BEV_TIMEOUT}}"
    and "set eofs \<subseteq> {{BEV_EOF}}"
  shows "length (filter settles (outcome # eofs)) = 1
         \<and> \<not> timeout_after_connected (outcome # eofs)"
  using assms(1) eofs_settle_nothing[OF assms(2)] by (auto simp add: settles_def)

text \<open>
  C4. A connection that is idle (no watcher active, \<^verbatim>\<open>connected\<close> 0) and has an event
  handler starts a connect attempt with \<^verbatim>\<open>bufferev_connect_addrinfo\<close>; then the event
  loop delivers any sequence of timer and readiness events, and every handler returns.
  Among the events delivered to the owner since the attempt began, no Timeout comes after a
  Connected. If the call returned 0 and the loop has delivered nothing yet, the owner has
  received no event. Otherwise exactly one event carrying Connected or Error has been
  delivered: it is the first event, it is Connected, Error or Error with Timeout (Error if
  the call failed), and every event after it is Eof.
\<close>

theorem C4_one_outcome_per_attempt:
  assumes "\<not> connect_timer_active be" and "\<not> data_ev_active be" and "connected be = 0"
    and "event_cb be = Some f"
    and "bufferev_connect_addrinfo sock_res conn_res src dst timeout_s be = (rc, be1)"
    and "run evs be1 = Some be2"
  shows "\<exists>new. calls be2 = calls be @ new
           \<and> \<not> timeout_after_connected (events_of new)
           \<and> (if rc = 0 \<and> evs = [] then events_of new = []
              else length (filter settles (events_of new)) = 1
                   \<and> (\<exists>outcome eofs. events_of new = outcome # eofs
                         \<and> outcome \<in> {{BEV_CONNECTED}, {BEV_ERROR}, {BEV_ERROR, BEV_TIMEOUT}}
                         \<and> (rc \<noteq> 0 \<longrightarrow> outcome = {BEV_ERROR})
                         \<and> set eofs \<subseteq> {{BEV_EOF}}))"
proof -
  from connect_addrinfo_cases[OF assms(1-5)] obtain cs where
    cs: "calls be1 = calls be @ cs" "event_cb be1 = Some f"
    and alt: "(rc = -1 \<and> events_of cs = [{BEV_ERROR}]
               \<and> \<not> connect_timer_active be1 \<and> \<not> data_ev_active be1)
            \<or> (rc = 0 \<and> events_of cs = [] \<and> connect_timer_active be1 \<and> data_ev_active be1
                \<and> data_ev_cb be1 = Some H_on_connect \<and> connected be1 = 0)"
    by (elim exE conjE) (rule that)
  from alt show ?thesis
  proof
    assume a: "rc = -1 \<and> events_of cs = [{BEV_ERROR}]
               \<and> \<not> connect_timer_active be1 \<and> \<not> data_ev_active be1"
    then have q: "\<not> connect_timer_active be1"
      "data_ev_active be1 \<longrightarrow> data_ev_cb be1 = Some H_on_read" by simp_all
    from run_quiet[OF assms(6) q] obtain new where
      n: "calls be2 = calls be1 @ new" "set (events_of new) \<subseteq> {{BEV_EOF}}"
      by (elim exE conjE) (rule that)
    have e: "events_of (cs @ new) = {BEV_ERROR} # events_of new"
      using a by (simp add: events_of_append)
    have o: "length (filter settles ({BEV_ERROR} # events_of new)) = 1
         \<and> \<not> timeout_after_connected ({BEV_ERROR} # events_of new)"
      by (rule one_outcome[OF _ n(2)]) simp
    have "calls be2 = calls be @ (cs @ new)" using cs n by simp
    then show ?thesis using a e o n(2) by (intro exI[of _ "cs @ new"]) auto
  next
    assume a: "rc = 0 \<and> events_of cs = [] \<and> connect_timer_active be1 \<and> data_ev_active be1
                \<and> data_ev_cb be1 = Some H_on_connect \<and> connected be1 = 0"
    show ?thesis
    proof (cases evs)
      case Nil
      with assms(6) have "be2 = be1" by simp
      with cs a Nil show ?thesis by (intro exI[of _ cs]) simp
    next
      case (Cons ev evs')
      with assms(6) obtain be1' where d: "dispatch ev be1 = Some be1'"
        and r: "run evs' be1' = Some be2" by (auto split: option.splits)
      from a have a1: "connect_timer_active be1" "data_ev_active be1"
        "data_ev_cb be1 = Some H_on_connect" "connected be1 = 0" by simp_all
      from first_event_settles[OF a1 cs(2) d] obtain cs1 outcome where
        f: "calls be1' = calls be1 @ cs1" "events_of cs1 = [outcome]"
           "outcome \<in> {{BEV_CONNECTED}, {BEV_ERROR}, {BEV_ERROR, BEV_TIMEOUT}}"
           "\<not> connect_timer_active be1'"
           "data_ev_active be1' \<longrightarrow> data_ev_cb be1' = Some H_on_read"
        by (elim exE conjE) (rule that)
      from run_quiet[OF r f(4,5)] obtain new where
        n: "calls be2 = calls be1' @ new" "set (events_of new) \<subseteq> {{BEV_EOF}}"
        by (elim exE conjE) (rule that)
      have e: "events_of (cs @ cs1 @ new) = outcome # events_of new"
        using a f(2) by (simp add: events_of_append)
      have o: "length (filter settles (outcome # events_of new)) = 1
         \<and> \<not> timeout_after_connected (outcome # events_of new)"
        by (rule one_outcome[OF f(3) n(2)])
      have "calls be2 = calls be @ (cs @ cs1 @ new)" using cs f(1) n(1) by simp
      then show ?thesis using a e o n(2) f(3) Cons
        by (intro exI[of _ "cs @ cs1 @ new"]) auto
    qed
  qed
qed

text \<open>
  A new connection with an event handler; the connect is in progress on descriptor 5; the
  descriptor becomes writable with no pending error; later the timer's event and an end
  of stream arrive. The events delivered are Connected and then Eof.
\<close>

theorem C4_one_outcome_per_attempt_witness:
  "\<exists>be1 be2.
     bufferev_connect_addrinfo 5 (ConnErr EINPROGRESS) None
        \<lparr>ai_family = 2, ai_socktype = 1, ai_protocol = 6\<rparr> 50
        (bufferev_setcbs zeroed None None (Some 1) 0) = (0, be1)
     \<and> run [IoReady 0 [], TimerFire, IoReady 0 [Recv []]] be1 = Some be2
     \<and> events_of (calls be2) = [{BEV_CONNECTED}, {BEV_EOF}]
     \<and> length (filter settles (events_of (calls be2))) = 1
     \<and> \<not> timeout_after_connected (events_of (calls be2))"
proof -
  let ?be = "bufferev_setcbs zeroed None None (Some 1) 0"
  let ?be1 = "snd (bufferev_connect_addrinfo 5 (ConnErr EINPROGRESS) None
                     \<lparr>ai_family = 2, ai_socktype = 1, ai_protocol = 6\<rparr> 50 ?be)"
  let ?evs = "[IoReady 0 [], TimerFire, IoReady 0 [Recv []]]"
  have c: "bufferev_connect_addrinfo 5 (ConnErr EINPROGRESS) None
             \<lparr>ai_family = 2, ai_socktype = 1, ai_protocol = 6\<rparr> 50 ?be = (0, ?be1)"
    by (simp add: bufferev_connect_addrinfo_def bufferev_setcbs_def zeroed_def lib_defs
          IPPROTO_UDP_def)
  obtain be2 where r: "run ?evs ?be1 = Some be2"
    and e: "events_of (calls be2) = [{BEV_CONNECTED}, {BEV_EOF}]"
    by (simp add: bufferev_connect_addrinfo_def bufferev_setcbs_def zeroed_def lib_defs
          IPPROTO_UDP_def dispatch_def on_connect_def on_connect_timeout_def on_read_def
          Let_def)
  have i: "\<not> connect_timer_active ?be" "\<not> data_ev_active ?be" "connected ?be = 0"
    "event_cb ?be = Some 1"
    by (simp_all add: bufferev_setcbs_def zeroed_def)
  from C4_one_outcome_per_attempt[OF i c r] obtain new where
    n: "calls be2 = calls ?be @ new" "\<not> timeout_after_connected (events_of new)"
       "length (filter settles (events_of new)) = 1"
    by (elim exE conjE) (simp split: if_splits)
  have "calls ?be = []" by (simp add: bufferev_setcbs_def zeroed_def)
  with n have "length (filter settles (events_of (calls be2))) = 1"
    "\<not> timeout_after_connected (events_of (calls be2))" by simp_all
  with c r e show ?thesis by (intro exI conjI)
qed

section \<open>Properties of address introspection\<close>

text \<open>
  C9 claims that the two functions return the socket's address and port. A socket bound to
  127.0.0.1, port 8080, is asked for its local address; \<^verbatim>\<open>getsockname\<close> succeeds and
  stores the answer at the address \<open>0x7FFD12345678\<close>. What comes back is the text
  \<^verbatim>\<open>253.127.0.0\<close> and the port 13330: bytes 4 to 7 and bytes 2 and 3 of the pointer.
  For any pointer and answer, the result is the same whatever port and address the answer
  holds. When the query fails the result is \<^verbatim>\<open>NULL\<close> and the port is left alone.
\<close>

theorem C9_address_read_from_pointer_bytes:
  "bufferev_get_local_addr ntop6 True 0x00007FFD12345678 beyond
     (Some \<lparr>ss_family = AF_INET, ss_port = 8080, ss_addr = [127, 0, 0, 1]\<rparr>) be 0
     = (Some ''253.127.0.0'', 13330)
   \<and> bufferev_get_peer_addr ntop6 True 0x00007FFD12345678 beyond
       (Some \<lparr>ss_family = AF_INET, ss_port = 8080, ss_addr = [127, 0, 0, 1]\<rparr>) be 0
       = (Some ''253.127.0.0'', 13330)
   \<and> parse_sockaddr ntop6 p beyond (addr\<lparr>ss_port := x, ss_addr := y\<rparr>) port
       = parse_sockaddr ntop6 p beyond addr port
   \<and> bufferev_get_local_addr ntop6 ok p beyond None be port = (None, port)
   \<and> bufferev_get_peer_addr ntop6 ok p beyond None be port = (None, port)"
  by (simp add: bufferev_get_local_addr_def bufferev_get_peer_addr_def parse_sockaddr_def
        inet_ntop4_def dec_byte_def digit_def char_of_def bit_0 port_at_def at_param_def
        drop_bit_eq_div AF_INET_def)

end
